theory Spec2Isabelle
  imports Main "HOL-Library.Sublist" "HOL-Library.Multiset"
begin

section \<open>POSIX path functions used by the scaffolder\<close>

text \<open>
  \<^verbatim>\<open>server.ts\<close> calls \<^verbatim>\<open>path.resolve\<close>, \<^verbatim>\<open>path.relative\<close>,
  \<^verbatim>\<open>path.isAbsolute\<close>, \<^verbatim>\<open>path.join\<close> and \<^verbatim>\<open>path.dirname\<close> of Node's
  \<^verbatim>\<open>node:path\<close> module. They are modelled here with their POSIX behaviour (the
  separator is the forward slash, a path is absolute when it starts with one). A path
  string is a \<open>string\<close>; the functions work on the list of its segments and render the
  result back to a string, so that the string test \<^verbatim>\<open>relative.startsWith('..')\<close> of the
  source is a test on a string here too. The working directory of the process, which
  \<^verbatim>\<open>path.resolve\<close> consults when no argument is absolute, is the explicit
  argument \<open>cwd\<close>; \<^verbatim>\<open>process.cwd()\<close> is an absolute path in every run.
\<close>

text \<open>\<^verbatim>\<open>s.split('/')\<close>: the pieces between separators, empty pieces kept.\<close>

fun split_sep :: "string \<Rightarrow> string list" where
  "split_sep [] = [[]]"
| "split_sep (c # cs) =
     (if c = CHR ''/'' then [] # split_sep cs
      else (case split_sep cs of
              [] \<Rightarrow> [[c]]
            | w # ws \<Rightarrow> (c # w) # ws))"

text \<open>\<^verbatim>\<open>segs.join('/')\<close>.\<close>

fun join_sep :: "string list \<Rightarrow> string" where
  "join_sep [] = []"
| "join_sep [s] = s"
| "join_sep (s # t # ts) = s @ ''/'' @ join_sep (t # ts)"

text \<open>
  One step of Node's \<^verbatim>\<open>normalizeString\<close>: an empty segment and \<^verbatim>\<open>.\<close> are dropped,
  \<^verbatim>\<open>..\<close> removes the last kept segment unless there is none or it is \<^verbatim>\<open>..\<close> itself
  (then it is kept when \<open>allowAboveRoot\<close> holds and dropped otherwise), any other
  segment is kept.
\<close>

definition norm_step :: "bool \<Rightarrow> string list \<Rightarrow> string \<Rightarrow> string list" where
  "norm_step allowAboveRoot res seg =
     (if seg = [] \<or> seg = ''.'' then res
      else if seg = ''..'' then
        (if res \<noteq> [] \<and> last res \<noteq> ''..'' then butlast res
         else if allowAboveRoot then res @ [''..''] else res)
      else res @ [seg])"

definition norm_segs :: "bool \<Rightarrow> string \<Rightarrow> string list" where
  "norm_segs allowAboveRoot p = foldl (norm_step allowAboveRoot) [] (split_sep p)"

definition normalizeString :: "string \<Rightarrow> bool \<Rightarrow> string" where
  "normalizeString p allowAboveRoot = join_sep (norm_segs allowAboveRoot p)"

definition isAbsolute :: "string \<Rightarrow> bool" where
  "isAbsolute p = (p \<noteq> [] \<and> hd p = CHR ''/'')"

text \<open>
  The loop of \<^verbatim>\<open>path.resolve\<close>: the arguments are visited from the last to the first
  and then the working directory, empty ones are skipped, each is put in front of what
  was collected, and the loop stops after the first absolute one. The list given here
  is in visiting order.
\<close>

fun resolve_collect :: "string list \<Rightarrow> string \<Rightarrow> string \<times> bool" where
  "resolve_collect [] resolvedPath = (resolvedPath, False)"
| "resolve_collect (p # ps) resolvedPath =
     (if p = [] then resolve_collect ps resolvedPath
      else if isAbsolute p then (p @ ''/'' @ resolvedPath, True)
      else resolve_collect ps (p @ ''/'' @ resolvedPath))"

definition resolve :: "string \<Rightarrow> string list \<Rightarrow> string" where
  "resolve cwd args =
     (case resolve_collect (rev args @ [cwd]) [] of
        (resolvedPath, resolvedAbsolute) \<Rightarrow>
          (let n = normalizeString resolvedPath (\<not> resolvedAbsolute)
           in if resolvedAbsolute then ''/'' @ n
              else if n \<noteq> [] then n else ''.''))"

text \<open>The segments of a path string: its non-empty pieces.\<close>

definition segs_of :: "string \<Rightarrow> string list" where
  "segs_of p = filter (\<lambda>s. s \<noteq> []) (split_sep p)"

text \<open>The number of leading segments two paths share.\<close>

fun common_len :: "string list \<Rightarrow> string list \<Rightarrow> nat" where
  "common_len (x # xs) (y # ys) = (if x = y then Suc (common_len xs ys) else 0)"
| "common_len _ _ = 0"

text \<open>
  \<^verbatim>\<open>path.relative(from, to)\<close>: both paths are resolved; the result is empty when they
  are equal, otherwise one \<^verbatim>\<open>..\<close> for every segment of \<open>from\<close> below the common
  prefix, followed by the segments of \<open>to\<close> below it.
\<close>

definition relative :: "string \<Rightarrow> string \<Rightarrow> string \<Rightarrow> string" where
  "relative cwd from to =
     (if from = to then []
      else
        (let f = resolve cwd [from]; t = resolve cwd [to]
         in if f = t then []
            else
              (let fs = segs_of f; ts = segs_of t; k = common_len fs ts
               in join_sep (replicate (length fs - k) ''..'' @ drop k ts))))"

text \<open>\<^verbatim>\<open>s.startsWith(prefix)\<close>.\<close>

definition startsWith :: "string \<Rightarrow> string \<Rightarrow> bool" where
  "startsWith s pre = (take (length pre) s = pre)"

text \<open>\<^verbatim>\<open>path.normalize\<close> and \<^verbatim>\<open>path.join\<close>.\<close>

definition normalize :: "string \<Rightarrow> string" where
  "normalize p =
     (if p = [] then ''.''
      else
        (let absolute = isAbsolute p;
             trailingSeparator = (last p = CHR ''/'');
             n = normalizeString p (\<not> absolute)
         in if n = [] then (if absolute then ''/'' else if trailingSeparator then ''./'' else ''.'')
            else (let n' = (if trailingSeparator then n @ ''/'' else n)
                  in if absolute then ''/'' @ n' else n')))"

definition join :: "string list \<Rightarrow> string" where
  "join args =
     (let parts = filter (\<lambda>a. a \<noteq> []) args
      in if parts = [] then ''.'' else normalize (join_sep parts))"

text \<open>
  \<^verbatim>\<open>path.dirname\<close>: scanning from the end down to index 1, trailing separators are
  passed over, then the last segment; the result is what stands before the separator
  reached, \<^verbatim>\<open>/\<close> or \<^verbatim>\<open>.\<close> when none is reached.
\<close>

definition dirname :: "string \<Rightarrow> string" where
  "dirname p =
     (if p = [] then ''.''
      else
        (let hasRoot = (hd p = CHR ''/'');
             rest = dropWhile (\<lambda>c. c \<noteq> CHR ''/'') (dropWhile (\<lambda>c. c = CHR ''/'') (rev (tl p)));
             end = length rest
         in if end = 0 then (if hasRoot then ''/'' else ''.'')
            else if hasRoot \<and> end = 1 then ''//''
            else take end p))"

section \<open>Errors\<close>

text \<open>
  Every failure of \<^verbatim>\<open>server.ts\<close> is a JavaScript \<^verbatim>\<open>Error\<close>. The ones Node's
  \<^verbatim>\<open>fs\<close> raises carry a \<^verbatim>\<open>code\<close> property; the ones the scaffolder raises
  itself are built by \<^verbatim>\<open>new Error(message)\<close> and carry a message only. \<open>errno\<close>
  lists the codes that occur: those of failed system calls, and the code Node gives a
  path argument that holds a null byte.
\<close>

datatype errno = EEXIST | ENOTDIR | EACCES | EISDIR | ENOENT | ENAMETOOLONG | ERR_INVALID_ARG_VALUE

datatype js_error = Error (code: "errno option") (message: string)

fun errno_text :: "errno \<Rightarrow> string" where
  "errno_text EEXIST = ''EEXIST: file already exists''"
| "errno_text ENOTDIR = ''ENOTDIR: not a directory''"
| "errno_text EACCES = ''EACCES: permission denied''"
| "errno_text EISDIR = ''EISDIR: illegal operation on a directory''"
| "errno_text ENOENT = ''ENOENT: no such file or directory''"
| "errno_text ENAMETOOLONG = ''ENAMETOOLONG: name too long''"
| "errno_text ERR_INVALID_ARG_VALUE = ''ERR_INVALID_ARG_VALUE''"

definition quoted :: "string \<Rightarrow> string" where
  "quoted s = [CHR 0x27] @ s @ [CHR 0x27]"

text \<open>The error Node raises for a failed system call on a path.\<close>

definition uvException :: "errno \<Rightarrow> string \<Rightarrow> string \<Rightarrow> js_error" where
  "uvException c syscall p = Error (Some c) (errno_text c @ '', '' @ syscall @ '' '' @ quoted p)"

text \<open>
  The error Node raises, before any system call, for a path that holds a null byte
  (the message shows the path as received, without the escaping Node applies to it).
\<close>

definition invalid_path :: "string \<Rightarrow> js_error" where
  "invalid_path p =
     Error (Some ERR_INVALID_ARG_VALUE)
       (''The argument '' @ quoted ''path'' @
        '' must be a string, Uint8Array, or URL without null bytes. Received '' @ quoted p)"

text \<open>\<^verbatim>\<open>isErrnoException\<close>: an \<^verbatim>\<open>Error\<close> that has a \<^verbatim>\<open>code\<close> property.\<close>

definition isErrnoException :: "js_error \<Rightarrow> bool" where
  "isErrnoException e = (code e \<noteq> None)"

section \<open>The path guard\<close>

definition resolveSafeTarget :: "string \<Rightarrow> string \<Rightarrow> string \<Rightarrow> js_error + string" where
  "resolveSafeTarget cwd inputPath baseDir =
     (let resolved = resolve cwd [baseDir, inputPath];
          rel = relative cwd baseDir resolved
      in if startsWith rel ''..'' \<or> isAbsolute rel then
           Inl (Error None (''Security violation: Target path '' @ quoted inputPath @
                            '' must be within the current working directory.''))
         else Inr resolved)"

text \<open>
  What the specification means by an input path that stays within the base directory:
  the segments of the resolved base directory are the leading segments of the resolved
  input path. \<open>clean\<close> describes the segments of a resolved absolute path.
\<close>

definition within_base :: "string \<Rightarrow> string \<Rightarrow> string \<Rightarrow> bool" where
  "within_base cwd baseDir inputPath =
     prefix (segs_of (resolve cwd [baseDir])) (segs_of (resolve cwd [baseDir, inputPath]))"

definition clean :: "string list \<Rightarrow> bool" where
  "clean segs = (\<forall>s\<in>set segs. s \<noteq> [] \<and> s \<noteq> ''.'' \<and> s \<noteq> ''..'' \<and> CHR ''/'' \<notin> set s)"

section \<open>The file system\<close>

text \<open>
  The file system is a map from absolute paths, as lists of segments, to what is there:
  a directory or a regular file with its content. The root is the empty list and is
  always a directory. \<open>locked\<close> marks the directories in which no entry can be created
  (read-only ones, a full disk): creating one there fails with \<^verbatim>\<open>EACCES\<close>. A name
  of more than 255 bytes cannot be looked up or created (\<^verbatim>\<open>ENAMETOOLONG\<close>). Symbolic
  links are not modelled; a path string names the node at the segments of its resolved
  form.
\<close>

datatype node = Dir | File string

record filesystem =
  nodes :: "string list \<Rightarrow> node option"
  locked :: "string list \<Rightarrow> bool"

definition lookup :: "filesystem \<Rightarrow> string list \<Rightarrow> node option" where
  "lookup fs k = (if k = [] then Some Dir else nodes fs k)"

definition fs_key :: "string \<Rightarrow> string \<Rightarrow> string list" where
  "fs_key cwd p = segs_of (resolve cwd [p])"

text \<open>
  \<^verbatim>\<open>fs.mkdir(p, { recursive: true })\<close>, from the root downwards: an existing
  directory is passed through, a missing one is created, a regular file in the way
  fails with \<^verbatim>\<open>ENOTDIR\<close>, and with \<^verbatim>\<open>EEXIST\<close> when it stands at the requested path
  itself (Node raises these two codes for a recursive \<^verbatim>\<open>mkdir\<close> whose path, or part
  of whose path, is a file). Directories created before a failure stay. A failure
  comes with the path of the directory that could not be made.
\<close>

fun mkdirp_walk :: "filesystem \<Rightarrow> string list \<Rightarrow> string list
    \<Rightarrow> (errno \<times> string list) option \<times> filesystem" where
  "mkdirp_walk fs pre [] = (None, fs)"
| "mkdirp_walk fs pre (s # rest) =
     (case lookup fs (pre @ [s]) of
        Some Dir \<Rightarrow> mkdirp_walk fs (pre @ [s]) rest
      | Some (File c) \<Rightarrow> (Some (if rest = [] then EEXIST else ENOTDIR, pre @ [s]), fs)
      | None \<Rightarrow>
          (if length s > 255 then (Some (ENAMETOOLONG, pre @ [s]), fs)
           else if locked fs pre then (Some (EACCES, pre @ [s]), fs)
           else mkdirp_walk (fs\<lparr>nodes := (nodes fs)(pre @ [s] \<mapsto> Dir)\<rparr>) (pre @ [s]) rest))"

text \<open>
  The error of a failed recursive \<^verbatim>\<open>mkdir\<close> of \<open>p\<close> that stopped with code \<open>c\<close> at
  the directory \<open>q\<close>. Node names the path of its last attempt: the requested path
  when the first attempt fails (a file in the way, an over-long name under existing
  directories), otherwise the directory that could not be made. A regular file
  requested with a trailing separator is \<^verbatim>\<open>ENOTDIR\<close>.
\<close>

definition mkdir_error :: "string \<Rightarrow> filesystem \<Rightarrow> errno \<Rightarrow> string list \<Rightarrow> js_error" where
  "mkdir_error p fs c q =
     (if c = EEXIST \<and> last p = CHR ''/'' then uvException ENOTDIR ''mkdir'' p
      else if c = EACCES \<or> (c = ENAMETOOLONG \<and> lookup fs (butlast q) = None)
        then uvException c ''mkdir'' (CHR ''/'' # join_sep q)
      else uvException c ''mkdir'' p)"

definition fs_mkdir_recursive :: "string \<Rightarrow> string \<Rightarrow> filesystem \<Rightarrow> (js_error + unit) \<times> filesystem" where
  "fs_mkdir_recursive cwd p fs =
     (if CHR 0x00 \<in> set p then (Inl (invalid_path p), fs)
      else if p = [] then (Inl (uvException ENOENT ''mkdir'' p), fs)
      else
        (case mkdirp_walk fs [] (fs_key cwd p) of
           (None, fs') \<Rightarrow> (Inr (), fs')
         | (Some (c, q), fs') \<Rightarrow> (Inl (mkdir_error p fs c q), fs')))"

text \<open>
  \<^verbatim>\<open>fs.writeFile(p, content, { flag: 'wx' })\<close>: an exclusive create. The root is
  there already (\<^verbatim>\<open>EEXIST\<close>); any other path that does not end in a file name fails
  with \<^verbatim>\<open>EISDIR\<close>, a missing parent with \<^verbatim>\<open>ENOENT\<close>, a parent that is a regular
  file with \<^verbatim>\<open>ENOTDIR\<close>, anything already at the path with \<^verbatim>\<open>EEXIST\<close>, a locked
  parent with \<^verbatim>\<open>EACCES\<close>; otherwise the file is created with exactly the content
  given.
\<close>

definition fs_writeFile_wx :: "string \<Rightarrow> string \<Rightarrow> string \<Rightarrow> filesystem \<Rightarrow> (js_error + unit) \<times> filesystem" where
  "fs_writeFile_wx cwd p content fs =
     (let k = fs_key cwd p
      in if CHR 0x00 \<in> set p then (Inl (invalid_path p), fs)
         else if p = [] then (Inl (uvException ENOENT ''open'' p), fs)
         else if k = [] then (Inl (uvException EEXIST ''open'' p), fs)
         else if last p = CHR ''/'' then (Inl (uvException EISDIR ''open'' p), fs)
         else
           (case lookup fs (butlast k) of
              None \<Rightarrow> (Inl (uvException ENOENT ''open'' p), fs)
            | Some (File c) \<Rightarrow> (Inl (uvException ENOTDIR ''open'' p), fs)
            | Some Dir \<Rightarrow>
                (if length (last k) > 255 then (Inl (uvException ENAMETOOLONG ''open'' p), fs)
                 else
                   (case nodes fs k of
                      Some n \<Rightarrow> (Inl (uvException EEXIST ''open'' p), fs)
                    | None \<Rightarrow>
                        (if locked fs (butlast k) then (Inl (uvException EACCES ''open'' p), fs)
                         else (Inr (), fs\<lparr>nodes := (nodes fs)(k \<mapsto> File content)\<rparr>))))))"

section \<open>The materializers\<close>

definition ensureDirectory :: "string \<Rightarrow> string \<Rightarrow> filesystem \<Rightarrow> (js_error + unit) \<times> filesystem" where
  "ensureDirectory cwd dirPath fs =
     (case fs_mkdir_recursive cwd dirPath fs of
        (Inr u, fs') \<Rightarrow> (Inr (), fs')
      | (Inl err, fs') \<Rightarrow>
          (Inl (Error None (''Failed to create directory '' @ quoted dirPath @ '': '' @ message err)), fs'))"

text \<open>The \<^verbatim>\<open>catch\<close> block of \<^verbatim>\<open>ensureFile\<close>.\<close>

definition ensureFile_catch :: "string \<Rightarrow> js_error \<Rightarrow> filesystem \<Rightarrow> (js_error + bool) \<times> filesystem" where
  "ensureFile_catch filePath err fs =
     (if isErrnoException err \<and> code err = Some EEXIST then (Inr False, fs)
      else (Inl (Error None (''Failed to create file '' @ quoted filePath @ '': '' @ message err)), fs))"

definition ensureFile :: "string \<Rightarrow> string \<Rightarrow> string \<Rightarrow> filesystem \<Rightarrow> (js_error + bool) \<times> filesystem" where
  "ensureFile cwd filePath content fs =
     (case fs_mkdir_recursive cwd (dirname filePath) fs of
        (Inl err, fs1) \<Rightarrow> ensureFile_catch filePath err fs1
      | (Inr u, fs1) \<Rightarrow>
          (case fs_writeFile_wx cwd filePath content fs1 of
             (Inl err, fs2) \<Rightarrow> ensureFile_catch filePath err fs2
           | (Inr v, fs2) \<Rightarrow> (Inr True, fs2)))"

section \<open>The orchestrator\<close>

datatype PatternType = Layered | Feature | Atomic | Clean

record file_spec =
  path :: string
  content :: string

record PatternDefinition =
  label :: string
  directories :: "string list"
  files :: "file_spec list"

record ScaffoldResult =
  resolvedTarget :: string
  createdDirs :: "string list"
  createdFiles :: "string list"
  skippedFiles :: "string list"
  result_label :: string

text \<open>
  The loop over \<^verbatim>\<open>pattern.directories\<close>; \<open>created_dirs\<close> is the array \<^verbatim>\<open>createdDirs\<close> the
  source pushes to. The first failure ends the loop.
\<close>

fun dirs_loop :: "string \<Rightarrow> string \<Rightarrow> string list \<Rightarrow> string list \<Rightarrow> filesystem
    \<Rightarrow> (js_error + string list) \<times> filesystem" where
  "dirs_loop cwd target [] created_dirs fs = (Inr created_dirs, fs)"
| "dirs_loop cwd target (dir # rest) created_dirs fs =
     (case ensureDirectory cwd (join [target, dir]) fs of
        (Inl e, fs') \<Rightarrow> (Inl e, fs')
      | (Inr u, fs') \<Rightarrow> dirs_loop cwd target rest (created_dirs @ [dir]) fs')"

text \<open>The loop over \<^verbatim>\<open>pattern.files\<close>, with the two arrays it pushes to.\<close>

fun files_loop :: "string \<Rightarrow> string \<Rightarrow> file_spec list \<Rightarrow> string list \<Rightarrow> string list \<Rightarrow> filesystem
    \<Rightarrow> (js_error + string list \<times> string list) \<times> filesystem" where
  "files_loop cwd target [] created_files skipped_files fs = (Inr (created_files, skipped_files), fs)"
| "files_loop cwd target (file # rest) created_files skipped_files fs =
     (case ensureFile cwd (join [target, path file]) (content file) fs of
        (Inl e, fs') \<Rightarrow> (Inl e, fs')
      | (Inr created, fs') \<Rightarrow>
          (if created then files_loop cwd target rest (created_files @ [path file]) skipped_files fs'
           else files_loop cwd target rest created_files (skipped_files @ [path file]) fs'))"

text \<open>
  \<^verbatim>\<open>scaffoldProject\<close>. The catalog \<^verbatim>\<open>PATTERNS\<close> of the source is a table of
  literal data; it is the argument \<open>PATTERNS\<close> here, so that what is proved holds for
  the table of \<^verbatim>\<open>server.ts\<close> and for any other one.
\<close>

definition scaffoldProject :: "string \<Rightarrow> (PatternType \<Rightarrow> PatternDefinition) \<Rightarrow> string \<Rightarrow> PatternType
    \<Rightarrow> string \<Rightarrow> filesystem \<Rightarrow> (js_error + ScaffoldResult) \<times> filesystem" where
  "scaffoldProject cwd PATTERNS inputPath patternType baseDir fs =
     (case resolveSafeTarget cwd inputPath baseDir of
        Inl e \<Rightarrow> (Inl e, fs)
      | Inr target \<Rightarrow>
          (let pattern = PATTERNS patternType
           in case ensureDirectory cwd target fs of
                (Inl e, fs1) \<Rightarrow> (Inl e, fs1)
              | (Inr u, fs1) \<Rightarrow>
                  (case dirs_loop cwd target (directories pattern) [] fs1 of
                     (Inl e, fs2) \<Rightarrow> (Inl e, fs2)
                   | (Inr dirs, fs2) \<Rightarrow>
                       (case files_loop cwd target (files pattern) [] [] fs2 of
                          (Inl e, fs3) \<Rightarrow> (Inl e, fs3)
                        | (Inr (created, skipped), fs3) \<Rightarrow>
                            (Inr \<lparr>resolvedTarget = target, createdDirs = dirs,
                                  createdFiles = created, skippedFiles = skipped,
                                  result_label = label pattern\<rparr>, fs3)))))"

section \<open>The input schema of the transport layer\<close>

text \<open>
  \<^verbatim>\<open>ScaffoldInputSchema\<close>: \<^verbatim>\<open>path\<close> is a string of at least one character and
  \<^verbatim>\<open>pattern_type\<close> one of the four pattern names. \<open>None\<close> is a rejected input.
\<close>

definition PatternTypeSchema :: "string \<Rightarrow> PatternType option" where
  "PatternTypeSchema s =
     (if s = ''layered'' then Some Layered
      else if s = ''feature'' then Some Feature
      else if s = ''atomic'' then Some Atomic
      else if s = ''clean'' then Some Clean
      else None)"

definition ScaffoldInputSchema :: "string \<times> string \<Rightarrow> (string \<times> PatternType) option" where
  "ScaffoldInputSchema raw =
     (if length (fst raw) \<ge> 1 then
        (case PatternTypeSchema (snd raw) of
           None \<Rightarrow> None
         | Some t \<Rightarrow> Some (fst raw, t))
      else None)"

section \<open>Example data\<close>

text \<open>
  The end-to-end scenario of the specification: a catalog whose every pattern has the
  directory \<^verbatim>\<open>src/components\<close> and the file \<^verbatim>\<open>src/app.ts\<close>, a file system
  with nothing in it, and the result of scaffolding \<^verbatim>\<open>app\<close> under \<^verbatim>\<open>/tmp/X\<close>.
\<close>

definition example_catalog :: "PatternType \<Rightarrow> PatternDefinition" where
  "example_catalog t =
     \<lparr>label = ''Example'', directories = [''src/components''],
      files = [\<lparr>path = ''src/app.ts'', content = ''export {}'' @ [CHR 0x0A]\<rparr>]\<rparr>"

definition empty_fs :: filesystem where
  "empty_fs = \<lparr>nodes = Map.empty, locked = (\<lambda>k. False)\<rparr>"

definition example_run :: "(js_error + ScaffoldResult) \<times> filesystem" where
  "example_run = scaffoldProject ''/work'' example_catalog ''app'' Layered ''/tmp/X'' empty_fs"

definition example_result :: ScaffoldResult where
  "example_result =
     \<lparr>resolvedTarget = ''/tmp/X/app'', createdDirs = [''src/components''],
      createdFiles = [''src/app.ts''], skippedFiles = [], result_label = ''Example''\<rparr>"

text \<open>
  The same scenario with the file already there, holding something else.
\<close>

definition seeded_fs :: filesystem where
  "seeded_fs =
     \<lparr>nodes = [[''tmp''] \<mapsto> Dir, [''tmp'', ''X''] \<mapsto> Dir, [''tmp'', ''X'', ''app''] \<mapsto> Dir,
               [''tmp'', ''X'', ''app'', ''src''] \<mapsto> Dir,
               [''tmp'', ''X'', ''app'', ''src'', ''app.ts''] \<mapsto> File ''// mine''],
      locked = (\<lambda>k. False)\<rparr>"

definition seeded_run :: "(js_error + ScaffoldResult) \<times> filesystem" where
  "seeded_run = scaffoldProject ''/work'' example_catalog ''app'' Layered ''/tmp/X'' seeded_fs"

definition seeded_result :: ScaffoldResult where
  "seeded_result =
     \<lparr>resolvedTarget = ''/tmp/X/app'', createdDirs = [''src/components''],
      createdFiles = [], skippedFiles = [''src/app.ts''], result_label = ''Example''\<rparr>"

text \<open>
  A file system in which \<^verbatim>\<open>/r\<close> is a directory and \<^verbatim>\<open>/r/src\<close> a regular file,
  and two runs that fail: one on a path that leaves the base directory, one whose
  target is that regular file.
\<close>

definition blocked_fs :: filesystem where
  "blocked_fs =
     \<lparr>nodes = [[''r''] \<mapsto> Dir, [''r'', ''src''] \<mapsto> File ''text''],
      locked = (\<lambda>k. False)\<rparr>"

definition escaping_run :: "(js_error + ScaffoldResult) \<times> filesystem" where
  "escaping_run = scaffoldProject ''/work'' example_catalog ''..'' Layered ''/r'' blocked_fs"

definition blocked_run :: "(js_error + ScaffoldResult) \<times> filesystem" where
  "blocked_run = scaffoldProject ''/work'' example_catalog ''src'' Layered ''/r'' blocked_fs"

text \<open>
  A catalog whose pattern declares the file \<^verbatim>\<open>src/app.ts\<close> and no directory.
\<close>

definition flat_catalog :: "PatternType \<Rightarrow> PatternDefinition" where
  "flat_catalog t =
     \<lparr>label = ''Flat'', directories = [],
      files = [\<lparr>path = ''src/app.ts'', content = ''export {}'' @ [CHR 0x0A]\<rparr>]\<rparr>"

text \<open>
  A catalog with several directories and files, declared in an order that is not the
  alphabetical one, and a tree in which two of the files are already there.
\<close>

definition wide_catalog :: "PatternType \<Rightarrow> PatternDefinition" where
  "wide_catalog t =
     \<lparr>label = ''Wide'', directories = [''src/components'', ''public'', ''docs''],
      files = [\<lparr>path = ''README.md'', content = ''# App''\<rparr>,
               \<lparr>path = ''src/main.ts'', content = ''main();''\<rparr>,
               \<lparr>path = ''src/app.ts'', content = ''export {}''\<rparr>,
               \<lparr>path = ''package.json'', content = ''{}''\<rparr>]\<rparr>"

definition partly_seeded_fs :: filesystem where
  "partly_seeded_fs =
     \<lparr>nodes = [[''tmp''] \<mapsto> Dir, [''tmp'', ''X''] \<mapsto> Dir, [''tmp'', ''X'', ''app''] \<mapsto> Dir,
               [''tmp'', ''X'', ''app'', ''README.md''] \<mapsto> File ''my notes'',
               [''tmp'', ''X'', ''app'', ''src''] \<mapsto> Dir,
               [''tmp'', ''X'', ''app'', ''src'', ''app.ts''] \<mapsto> File ''// mine''],
      locked = (\<lambda>k. False)\<rparr>"

definition wide_fresh_run :: "(js_error + ScaffoldResult) \<times> filesystem" where
  "wide_fresh_run = scaffoldProject ''/work'' wide_catalog ''app'' Feature ''/tmp/X'' empty_fs"

definition wide_fresh_result :: ScaffoldResult where
  "wide_fresh_result =
     \<lparr>resolvedTarget = ''/tmp/X/app'', createdDirs = [''src/components'', ''public'', ''docs''],
      createdFiles = [''README.md'', ''src/main.ts'', ''src/app.ts'', ''package.json''],
      skippedFiles = [], result_label = ''Wide''\<rparr>"

definition wide_seeded_run :: "(js_error + ScaffoldResult) \<times> filesystem" where
  "wide_seeded_run =
     scaffoldProject ''/work'' wide_catalog ''app'' Feature ''/tmp/X'' partly_seeded_fs"

definition wide_seeded_result :: ScaffoldResult where
  "wide_seeded_result =
     \<lparr>resolvedTarget = ''/tmp/X/app'', createdDirs = [''src/components'', ''public'', ''docs''],
      createdFiles = [''src/main.ts'', ''package.json''],
      skippedFiles = [''README.md'', ''src/app.ts''], result_label = ''Wide''\<rparr>"

text \<open>
  Two trees on which the wide pattern fails under \<^verbatim>\<open>/r/app\<close>: one where
  \<^verbatim>\<open>public\<close> is a regular file, so the second directory cannot be made, and one
  where \<^verbatim>\<open>src\<close> accepts no new entry, so the second file cannot be written.
\<close>

definition dir_blocked_fs :: filesystem where
  "dir_blocked_fs =
     \<lparr>nodes = [[''r''] \<mapsto> Dir, [''r'', ''app''] \<mapsto> Dir,
               [''r'', ''app'', ''public''] \<mapsto> File ''text''],
      locked = (\<lambda>k. False)\<rparr>"

definition src_locked_fs :: filesystem where
  "src_locked_fs =
     \<lparr>nodes = [[''r''] \<mapsto> Dir, [''r'', ''app''] \<mapsto> Dir, [''r'', ''app'', ''src''] \<mapsto> Dir,
               [''r'', ''app'', ''src'', ''components''] \<mapsto> Dir],
      locked = (\<lambda>k. k = [''r'', ''app'', ''src''])\<rparr>"

text \<open>
  The states the two failing runs pass through, and the errors the four failing runs
  end with.
\<close>

definition dir_blocked_state_a :: filesystem where
  "dir_blocked_state_a = snd (ensureDirectory ''/work'' ''/r/app'' dir_blocked_fs)"

definition dir_blocked_state_b :: filesystem where
  "dir_blocked_state_b =
     snd (dirs_loop ''/work'' ''/r/app'' [''src/components''] [] dir_blocked_state_a)"

definition dir_blocked_state_c :: filesystem where
  "dir_blocked_state_c =
     snd (ensureDirectory ''/work'' (join [''/r/app'', ''public'']) dir_blocked_state_b)"

definition src_locked_state_a :: filesystem where
  "src_locked_state_a = snd (ensureDirectory ''/work'' ''/r/app'' src_locked_fs)"

definition src_locked_state_b :: filesystem where
  "src_locked_state_b =
     snd (dirs_loop ''/work'' ''/r/app'' [''src/components'', ''public'', ''docs''] []
            src_locked_state_a)"

definition src_locked_state_c :: filesystem where
  "src_locked_state_c =
     snd (files_loop ''/work'' ''/r/app'' [\<lparr>path = ''README.md'', content = ''# App''\<rparr>] [] []
            src_locked_state_b)"

definition src_locked_state_d :: filesystem where
  "src_locked_state_d =
     snd (ensureFile ''/work'' (join [''/r/app'', ''src/main.ts'']) ''main();'' src_locked_state_c)"

definition guard_failure :: js_error where
  "guard_failure =
     Error None (''Security violation: Target path '' @ quoted ''..'' @
                 '' must be within the current working directory.'')"

definition target_failure :: js_error where
  "target_failure =
     Error None (''Failed to create directory '' @ quoted ''/r/src'' @ '': '' @
                 ''EEXIST: file already exists, mkdir '' @ quoted ''/r/src'')"

definition dir_failure :: js_error where
  "dir_failure =
     Error None (''Failed to create directory '' @ quoted ''/r/app/public'' @ '': '' @
                 ''EEXIST: file already exists, mkdir '' @ quoted ''/r/app/public'')"

definition file_failure :: js_error where
  "file_failure =
     Error None (''Failed to create file '' @ quoted ''/r/app/src/main.ts'' @ '': '' @
                 ''EACCES: permission denied, open '' @ quoted ''/r/app/src/main.ts'')"

section \<open>The content a pattern declares for a path\<close>

text \<open>
  The content of the first file entry with the given path, if there is one.
\<close>

definition declared_content :: "file_spec list \<Rightarrow> string \<Rightarrow> string option" where
  "declared_content fl p = map_of (map (\<lambda>f. (path f, content f)) fl) p"

section \<open>Growth of the file system\<close>

text \<open>
  No operation of the scaffolder removes or replaces anything: a later file system
  \<open>extends\<close> an earlier one when it locks the same directories and still holds every
  node of the earlier one, unchanged.
\<close>

definition extends :: "filesystem \<Rightarrow> filesystem \<Rightarrow> bool" where
  "extends fs fs' = (locked fs' = locked fs \<and> (\<forall>k n. nodes fs k = Some n \<longrightarrow> nodes fs' k = Some n))"

section \<open>What a successful run of the orchestrator went through\<close>

lemma scaffoldProject_success:
  assumes "scaffoldProject cwd PATTERNS inputPath patternType baseDir fs = (Inr r, fs3)"
  obtains target fs1 fs2 where
    "resolveSafeTarget cwd inputPath baseDir = Inr target"
    "ensureDirectory cwd target fs = (Inr (), fs1)"
    "dirs_loop cwd target (directories (PATTERNS patternType)) [] fs1 = (Inr (createdDirs r), fs2)"
    "files_loop cwd target (files (PATTERNS patternType)) [] [] fs2
       = (Inr (createdFiles r, skippedFiles r), fs3)"
    "resolvedTarget r = target"
    "result_label r = label (PATTERNS patternType)"
  using assms unfolding scaffoldProject_def Let_def
  by (auto split: sum.splits prod.splits)

lemma example_run_fst: "fst example_run = Inr example_result"
  by code_simp

lemma example_run_eq:
  "scaffoldProject ''/work'' example_catalog ''app'' Layered ''/tmp/X'' empty_fs
     = (Inr example_result, snd example_run)"
  using example_run_fst unfolding example_run_def by (simp add: prod_eq_iff)

lemma dirs_loop_result:
  "dirs_loop cwd target ds acc fs = (Inr r, fs') \<Longrightarrow> r = acc @ ds"
  by (induction ds arbitrary: acc fs) (fastforce split: sum.splits prod.splits)+

lemma files_loop_result:
  "files_loop cwd target fl cr sk fs = (Inr (cr', sk'), fs') \<Longrightarrow>
   \<exists>c s. cr' = cr @ c \<and> sk' = sk @ s \<and> subseq c (map path fl) \<and> subseq s (map path fl)
      \<and> mset c + mset s = mset (map path fl)"
proof (induction fl arbitrary: cr sk fs)
  case Nil
  then show ?case by simp
next
  case (Cons f fl)
  from Cons.prems obtain b fs1 where
    e: "ensureFile cwd (join [target, path f]) (content f) fs = (Inr b, fs1)"
    by (auto split: sum.splits prod.splits)
  show ?case
  proof (cases b)
    case True
    with Cons.prems e
    have "files_loop cwd target fl (cr @ [path f]) sk fs1 = (Inr (cr', sk'), fs')"
      by simp
    from Cons.IH[OF this] obtain c s where
      "cr' = (cr @ [path f]) @ c" "sk' = sk @ s" "subseq c (map path fl)"
      "subseq s (map path fl)" "mset c + mset s = mset (map path fl)" by blast
    then have "cr' = cr @ (path f # c) \<and> sk' = sk @ s
        \<and> subseq (path f # c) (map path (f # fl)) \<and> subseq s (map path (f # fl))
        \<and> mset (path f # c) + mset s = mset (map path (f # fl))"
      by (simp add: list_emb_Cons)
    then show ?thesis by blast
  next
    case False
    with Cons.prems e
    have "files_loop cwd target fl cr (sk @ [path f]) fs1 = (Inr (cr', sk'), fs')"
      by simp
    from Cons.IH[OF this] obtain c s where
      "cr' = cr @ c" "sk' = (sk @ [path f]) @ s" "subseq c (map path fl)"
      "subseq s (map path fl)" "mset c + mset s = mset (map path fl)" by blast
    then have "cr' = cr @ c \<and> sk' = sk @ (path f # s)
        \<and> subseq c (map path (f # fl)) \<and> subseq (path f # s) (map path (f # fl))
        \<and> mset c + mset (path f # s) = mset (map path (f # fl))"
      by (simp add: list_emb_Cons)
    then show ?thesis by blast
  qed
qed

section \<open>Order of the result lists\<close>

text \<open>
  Claim C7. In every successful result, \<open>createdDirs\<close> is the list of directories of
  the pattern as declared, and \<open>createdFiles\<close> and \<open>skippedFiles\<close> list paths of the
  pattern's files in the order the pattern declares them (each is a subsequence of the
  declared paths), whatever the file system held.
\<close>

theorem scaffold_declared_order:
  assumes "scaffoldProject cwd PATTERNS inputPath patternType baseDir fs = (Inr r, fs')"
  shows "createdDirs r = directories (PATTERNS patternType)
       \<and> subseq (createdFiles r) (map path (files (PATTERNS patternType)))
       \<and> subseq (skippedFiles r) (map path (files (PATTERNS patternType)))"
proof -
  from assms obtain target fs1 fs2 where
    d: "dirs_loop cwd target (directories (PATTERNS patternType)) [] fs1
          = (Inr (createdDirs r), fs2)"
    and f: "files_loop cwd target (files (PATTERNS patternType)) [] [] fs2
          = (Inr (createdFiles r, skippedFiles r), fs')"
    by (rule scaffoldProject_success)
  from dirs_loop_result[OF d] have "createdDirs r = directories (PATTERNS patternType)"
    by simp
  moreover from files_loop_result[OF f] have
    "subseq (createdFiles r) (map path (files (PATTERNS patternType)))"
    "subseq (skippedFiles r) (map path (files (PATTERNS patternType)))" by auto
  ultimately show ?thesis by simp
qed

lemma wide_fresh_run_eq:
  "scaffoldProject ''/work'' wide_catalog ''app'' Feature ''/tmp/X'' empty_fs
     = (Inr wide_fresh_result, snd wide_fresh_run)"
proof -
  have "fst wide_fresh_run = Inr wide_fresh_result" by code_simp
  then show ?thesis unfolding wide_fresh_run_def by (simp add: prod_eq_iff)
qed

lemma wide_seeded_run_eq:
  "scaffoldProject ''/work'' wide_catalog ''app'' Feature ''/tmp/X'' partly_seeded_fs
     = (Inr wide_seeded_result, snd wide_seeded_run)"
proof -
  have "fst wide_seeded_run = Inr wide_seeded_result" by code_simp
  then show ?thesis unfolding wide_seeded_run_def by (simp add: prod_eq_iff)
qed

theorem scaffold_declared_order_witness:
  "scaffoldProject ''/work'' wide_catalog ''app'' Feature ''/tmp/X'' empty_fs
     = (Inr wide_fresh_result, snd wide_fresh_run)
   \<and> scaffoldProject ''/work'' wide_catalog ''app'' Feature ''/tmp/X'' partly_seeded_fs
     = (Inr wide_seeded_result, snd wide_seeded_run)
   \<and> createdDirs wide_fresh_result = [''src/components'', ''public'', ''docs'']
   \<and> createdDirs wide_seeded_result = [''src/components'', ''public'', ''docs'']
   \<and> directories (wide_catalog Feature) = [''src/components'', ''public'', ''docs'']
   \<and> map path (files (wide_catalog Feature))
       = [''README.md'', ''src/main.ts'', ''src/app.ts'', ''package.json'']
   \<and> createdFiles wide_fresh_result = [''README.md'', ''src/main.ts'', ''src/app.ts'', ''package.json'']
   \<and> skippedFiles wide_fresh_result = []
   \<and> createdFiles wide_seeded_result = [''src/main.ts'', ''package.json'']
   \<and> skippedFiles wide_seeded_result = [''README.md'', ''src/app.ts'']
   \<and> subseq (createdFiles wide_fresh_result) (map path (files (wide_catalog Feature)))
   \<and> subseq (skippedFiles wide_fresh_result) (map path (files (wide_catalog Feature)))
   \<and> subseq (createdFiles wide_seeded_result) (map path (files (wide_catalog Feature)))
   \<and> subseq (skippedFiles wide_seeded_result) (map path (files (wide_catalog Feature)))"
proof -
  note fresh = scaffold_declared_order[OF wide_fresh_run_eq]
  note seeded = scaffold_declared_order[OF wide_seeded_run_eq]
  have d: "directories (wide_catalog Feature) = [''src/components'', ''public'', ''docs'']"
    by (simp add: wide_catalog_def)
  have p: "map path (files (wide_catalog Feature))
       = [''README.md'', ''src/main.ts'', ''src/app.ts'', ''package.json'']"
    by (simp add: wide_catalog_def)
  have l: "createdFiles wide_fresh_result = [''README.md'', ''src/main.ts'', ''src/app.ts'', ''package.json'']"
    "skippedFiles wide_fresh_result = []"
    "createdFiles wide_seeded_result = [''src/main.ts'', ''package.json'']"
    "skippedFiles wide_seeded_result = [''README.md'', ''src/app.ts'']"
    by (simp_all add: wide_fresh_result_def wide_seeded_result_def)
  from fresh seeded d have c: "createdDirs wide_fresh_result = [''src/components'', ''public'', ''docs'']"
    "createdDirs wide_seeded_result = [''src/components'', ''public'', ''docs'']"
    by simp_all
  from fresh seeded have s:
    "subseq (createdFiles wide_fresh_result) (map path (files (wide_catalog Feature)))"
    "subseq (skippedFiles wide_fresh_result) (map path (files (wide_catalog Feature)))"
    "subseq (createdFiles wide_seeded_result) (map path (files (wide_catalog Feature)))"
    "subseq (skippedFiles wide_seeded_result) (map path (files (wide_catalog Feature)))"
    by blast+
  from wide_fresh_run_eq wide_seeded_run_eq c d p l s show ?thesis by blast
qed

section \<open>Every file entry is reported once\<close>

text \<open>
  Claim C9. On every successful call each file entry of the pattern is pushed to exactly
  one of \<open>createdFiles\<close> and \<open>skippedFiles\<close>: together the two lists hold the declared
  paths, each as often as it is declared, so their lengths add up to the number of file
  entries.
\<close>

theorem scaffold_files_partition:
  assumes "scaffoldProject cwd PATTERNS inputPath patternType baseDir fs = (Inr r, fs')"
  shows "mset (createdFiles r) + mset (skippedFiles r)
           = mset (map path (files (PATTERNS patternType)))
       \<and> length (createdFiles r) + length (skippedFiles r)
           = length (files (PATTERNS patternType))"
proof -
  from assms obtain target fs1 fs2 where
    f: "files_loop cwd target (files (PATTERNS patternType)) [] [] fs2
          = (Inr (createdFiles r, skippedFiles r), fs')"
    by (rule scaffoldProject_success)
  from files_loop_result[OF f] have
    m: "mset (createdFiles r) + mset (skippedFiles r)
          = mset (map path (files (PATTERNS patternType)))"
    by auto
  then have "size (mset (createdFiles r) + mset (skippedFiles r))
      = size (mset (map path (files (PATTERNS patternType))))"
    by simp
  then have "length (createdFiles r) + length (skippedFiles r)
      = length (files (PATTERNS patternType))"
    by simp
  with m show ?thesis by simp
qed

theorem scaffold_files_partition_witness:
  "scaffoldProject ''/work'' example_catalog ''app'' Layered ''/tmp/X'' empty_fs
     = (Inr example_result, snd example_run)
   \<and> mset (createdFiles example_result) + mset (skippedFiles example_result)
       = mset (map path (files (example_catalog Layered)))
   \<and> length (createdFiles example_result) + length (skippedFiles example_result)
       = length (files (example_catalog Layered))"
  using scaffold_files_partition[OF example_run_eq] example_run_eq by simp

section \<open>Operations only add to the file system\<close>

lemma extends_refl: "extends fs fs"
  by (simp add: extends_def)

lemma extends_trans: "extends a b \<Longrightarrow> extends b c \<Longrightarrow> extends a c"
  by (simp add: extends_def)

lemma extends_node: "extends fs fs' \<Longrightarrow> nodes fs k = Some n \<Longrightarrow> nodes fs' k = Some n"
  by (simp add: extends_def)

lemma extends_lookup: "extends fs fs' \<Longrightarrow> lookup fs k = Some n \<Longrightarrow> lookup fs' k = Some n"
  by (auto simp: extends_def lookup_def split: if_splits)

lemma extends_create:
  "nodes fs k = None \<Longrightarrow> extends fs (fs\<lparr>nodes := (nodes fs)(k \<mapsto> n)\<rparr>)"
  by (auto simp: extends_def)

lemma mkdirp_walk_extends:
  "mkdirp_walk fs pre segs = (r, fs') \<Longrightarrow> extends fs fs'"
proof (induction segs arbitrary: fs pre)
  case Nil
  then show ?case by (simp add: extends_refl)
next
  case (Cons s rest)
  show ?case
  proof (cases "lookup fs (pre @ [s])")
    case None
    then have n: "nodes fs (pre @ [s]) = None" by (simp add: lookup_def)
    show ?thesis
    proof (cases "length s > 255 \<or> locked fs pre")
      case True
      with None Cons.prems show ?thesis by (auto simp: extends_refl split: if_splits)
    next
      case False
      with None Cons.prems
      have "mkdirp_walk (fs\<lparr>nodes := (nodes fs)(pre @ [s] \<mapsto> Dir)\<rparr>) (pre @ [s]) rest = (r, fs')"
        by simp
      from Cons.IH[OF this] extends_create[OF n] show ?thesis
        by (blast intro: extends_trans)
    qed
  next
    case (Some nd)
    show ?thesis
    proof (cases nd)
      case Dir
      with Some Cons.prems have "mkdirp_walk fs (pre @ [s]) rest = (r, fs')" by simp
      from Cons.IH[OF this] show ?thesis .
    next
      case (File c)
      with Some Cons.prems show ?thesis by (simp add: extends_refl)
    qed
  qed
qed

lemma mkdirp_walk_again:
  "mkdirp_walk fs pre segs = (r, fs1) \<Longrightarrow> r = None \<or> (\<exists>q. r = Some (EEXIST, q))
     \<Longrightarrow> extends fs1 fs' \<Longrightarrow> mkdirp_walk fs' pre segs = (r, fs')"
proof (induction segs arbitrary: fs pre)
  case Nil
  then show ?case by auto
next
  case (Cons s rest)
  show ?case
  proof (cases "lookup fs (pre @ [s])")
    case None
    then have n: "nodes fs (pre @ [s]) = None" by (simp add: lookup_def)
    show ?thesis
    proof (cases "length s > 255 \<or> locked fs pre")
      case True
      with None Cons.prems show ?thesis by (auto split: if_splits)
    next
      case False
      let ?fs2 = "fs\<lparr>nodes := (nodes fs)(pre @ [s] \<mapsto> Dir)\<rparr>"
      from False None Cons.prems
      have w: "mkdirp_walk ?fs2 (pre @ [s]) rest = (r, fs1)"
        by simp
      have "nodes ?fs2 (pre @ [s]) = Some Dir" by simp
      with mkdirp_walk_extends[OF w] Cons.prems(3) have "nodes fs' (pre @ [s]) = Some Dir"
        by (blast dest: extends_node)
      then have "mkdirp_walk fs' pre (s # rest) = mkdirp_walk fs' (pre @ [s]) rest"
        by (simp add: lookup_def)
      with Cons.IH[OF w Cons.prems(2,3)] show ?thesis by simp
    qed
  next
    case (Some nd)
    then have n: "nodes fs (pre @ [s]) = Some nd" by (simp add: lookup_def)
    show ?thesis
    proof (cases nd)
      case Dir
      with Some Cons.prems have w: "mkdirp_walk fs (pre @ [s]) rest = (r, fs1)" by simp
      from n Dir mkdirp_walk_extends[OF w] Cons.prems(3) have "nodes fs' (pre @ [s]) = Some Dir"
        by (blast dest: extends_node)
      then have "mkdirp_walk fs' pre (s # rest) = mkdirp_walk fs' (pre @ [s]) rest"
        by (simp add: lookup_def)
      with Cons.IH[OF w Cons.prems(2,3)] show ?thesis by simp
    next
      case (File c)
      with Some Cons.prems have e: "fs1 = fs"
        "r = Some (if rest = [] then EEXIST else ENOTDIR, pre @ [s])"
        by auto
      from n File e Cons.prems(3) have "nodes fs' (pre @ [s]) = Some (File c)"
        by (blast dest: extends_node)
      with e show ?thesis by (simp add: lookup_def)
    qed
  qed
qed

lemma fs_mkdir_recursive_extends:
  "fs_mkdir_recursive cwd p fs = (r, fs') \<Longrightarrow> extends fs fs'"
  unfolding fs_mkdir_recursive_def
  by (auto simp: extends_refl split: if_splits prod.splits option.splits dest: mkdirp_walk_extends)

lemma fs_mkdir_recursive_again:
  assumes "fs_mkdir_recursive cwd p fs = (Inr u, fs1)" "extends fs1 fs'"
  shows "fs_mkdir_recursive cwd p fs' = (Inr (), fs')"
proof -
  from assms(1) have p: "p \<noteq> []" "CHR 0x00 \<notin> set p"
    and w: "mkdirp_walk fs [] (fs_key cwd p) = (None, fs1)"
    unfolding fs_mkdir_recursive_def by (auto split: if_splits prod.splits option.splits)
  from mkdirp_walk_again[OF w _ assms(2)] p show ?thesis
    unfolding fs_mkdir_recursive_def by simp
qed

lemma code_uvException [simp]: "code (uvException c s p) = Some c"
  by (simp add: uvException_def)

lemma code_mkdir_error_exist:
  "code (mkdir_error p fs c q) = Some EEXIST
     \<longleftrightarrow> c = EEXIST \<and> last p \<noteq> CHR ''/''"
  by (auto simp: mkdir_error_def)

lemma mkdir_error_exist:
  "last p \<noteq> CHR ''/'' \<Longrightarrow> mkdir_error p fs EEXIST q = uvException EEXIST ''mkdir'' p"
  by (simp add: mkdir_error_def)

lemma fs_mkdir_recursive_exist_again:
  assumes "fs_mkdir_recursive cwd p fs = (Inl err, fs1)" "code err = Some EEXIST" "extends fs1 fs'"
  shows "fs_mkdir_recursive cwd p fs' = (Inl err, fs')"
proof -
  from assms(1,2) have p: "p \<noteq> []" "CHR 0x00 \<notin> set p"
    unfolding fs_mkdir_recursive_def invalid_path_def
    by (auto split: if_splits)
  with assms(1) obtain c q where w: "mkdirp_walk fs [] (fs_key cwd p) = (Some (c, q), fs1)"
    and e: "err = mkdir_error p fs c q"
    unfolding fs_mkdir_recursive_def
    by (auto split: prod.splits option.splits)
  from e assms(2) have c: "c = EEXIST" and t: "last p \<noteq> CHR ''/''"
    by (simp_all add: code_mkdir_error_exist)
  from w c have "mkdirp_walk fs [] (fs_key cwd p) = (Some (EEXIST, q), fs1)" by simp
  from mkdirp_walk_again[OF this _ assms(3)]
  have "mkdirp_walk fs' [] (fs_key cwd p) = (Some (EEXIST, q), fs')" by blast
  with p e c t show ?thesis
    unfolding fs_mkdir_recursive_def by (simp add: mkdir_error_exist)
qed

lemma fs_writeFile_wx_extends:
  "fs_writeFile_wx cwd p c fs = (r, fs') \<Longrightarrow> extends fs fs'"
  unfolding fs_writeFile_wx_def Let_def
  by (auto simp: extends_refl extends_create split: if_splits option.splits node.splits)


lemma code_invalid_path [simp]: "code (invalid_path p) = Some ERR_INVALID_ARG_VALUE"
  by (simp add: invalid_path_def)

lemma fs_writeFile_wx_again:
  assumes "fs_writeFile_wx cwd p c fs = (r, fs1)"
    and "(\<exists>v. r = Inr v) \<or> (\<exists>err. r = Inl err \<and> code err = Some EEXIST)"
    and "extends fs1 fs'"
  shows "fs_writeFile_wx cwd p c' fs' = (Inl (uvException EEXIST ''open'' p), fs')"
proof (cases "fs_key cwd p = []")
  case True
  from assms(1,2) have "p \<noteq> []" "CHR 0x00 \<notin> set p"
    unfolding fs_writeFile_wx_def Let_def
    by (auto split: if_splits)
  with True show ?thesis
    unfolding fs_writeFile_wx_def Let_def by simp
next
  case False
  let ?k = "fs_key cwd p"
  from assms(1,2) False have p: "p \<noteq> []" "CHR 0x00 \<notin> set p" "last p \<noteq> CHR ''/''"
    "\<not> length (last ?k) > 255"
    and d: "lookup fs (butlast ?k) = Some Dir"
    unfolding fs_writeFile_wx_def Let_def
    by (auto split: if_splits option.splits node.splits)
  from assms(1,2) False p d have "\<exists>n. nodes fs1 ?k = Some n"
    unfolding fs_writeFile_wx_def Let_def
    by (auto split: if_splits option.splits node.splits)
  with assms(3) obtain n where n: "nodes fs' ?k = Some n"
    by (blast dest: extends_node)
  from fs_writeFile_wx_extends[OF assms(1)] assms(3) have "extends fs fs'"
    by (rule extends_trans)
  from extends_lookup[OF this d] have "lookup fs' (butlast ?k) = Some Dir" .
  with p n False show ?thesis
    unfolding fs_writeFile_wx_def Let_def by simp
qed

lemma ensureDirectory_extends:
  "ensureDirectory cwd p fs = (r, fs') \<Longrightarrow> extends fs fs'"
  unfolding ensureDirectory_def
  by (auto split: prod.splits sum.splits dest: fs_mkdir_recursive_extends)

lemma ensureDirectory_again:
  assumes "ensureDirectory cwd p fs = (Inr u, fs1)" "extends fs1 fs'"
  shows "ensureDirectory cwd p fs' = (Inr (), fs')"
proof -
  from assms(1) obtain v where "fs_mkdir_recursive cwd p fs = (Inr v, fs1)"
    unfolding ensureDirectory_def by (auto split: prod.splits sum.splits)
  from fs_mkdir_recursive_again[OF this assms(2)] show ?thesis
    unfolding ensureDirectory_def by simp
qed

lemma ensureFile_catch_extends:
  "ensureFile_catch p err fs = (r, fs') \<Longrightarrow> fs' = fs"
  unfolding ensureFile_catch_def by (auto split: if_splits)

lemma ensureFile_extends:
  assumes "ensureFile cwd p c fs = (r, fs')"
  shows "extends fs fs'"
proof (cases "fs_mkdir_recursive cwd (dirname p) fs")
  case (Pair m fsA)
  note mk = fs_mkdir_recursive_extends[OF Pair]
  show ?thesis
  proof (cases m)
    case (Inl err)
    with Pair assms have "ensureFile_catch p err fsA = (r, fs')"
      unfolding ensureFile_def by simp
    from ensureFile_catch_extends[OF this] mk show ?thesis by simp
  next
    case (Inr u)
    show ?thesis
    proof (cases "fs_writeFile_wx cwd p c fsA")
      case (Pair w fsB)
      note wr = fs_writeFile_wx_extends[OF Pair]
      from mk wr have e: "extends fs fsB" by (rule extends_trans)
      show ?thesis
      proof (cases w)
        case (Inl err)
        with Pair Inr \<open>fs_mkdir_recursive cwd (dirname p) fs = (m, fsA)\<close> assms
        have "ensureFile_catch p err fsB = (r, fs')"
          unfolding ensureFile_def by simp
        from ensureFile_catch_extends[OF this] e show ?thesis by simp
      next
        case (Inr v)
        with Pair \<open>m = Inr u\<close> \<open>fs_mkdir_recursive cwd (dirname p) fs = (m, fsA)\<close> assms
        have "fs' = fsB" unfolding ensureFile_def by simp
        with e show ?thesis by simp
      qed
    qed
  qed
qed

lemma ensureFile_again:
  assumes "ensureFile cwd p c fs = (Inr b, fs1)" "extends fs1 fs'"
  shows "ensureFile cwd p c' fs' = (Inr False, fs')"
proof (cases "fs_mkdir_recursive cwd (dirname p) fs")
  case (Pair m fsA)
  show ?thesis
  proof (cases m)
    case (Inl err)
    with Pair assms(1) have c: "ensureFile_catch p err fsA = (Inr b, fs1)"
      unfolding ensureFile_def by simp
    then have ex: "code err = Some EEXIST" and eq: "fs1 = fsA"
      unfolding ensureFile_catch_def by (auto split: if_splits)
    from Pair Inl have "fs_mkdir_recursive cwd (dirname p) fs = (Inl err, fsA)" by simp
    from fs_mkdir_recursive_exist_again[OF this ex] assms(2) eq
    have "fs_mkdir_recursive cwd (dirname p) fs' = (Inl err, fs')" by simp
    with ex show ?thesis
      unfolding ensureFile_def ensureFile_catch_def isErrnoException_def by simp
  next
    case (Inr u)
    with Pair have mk: "fs_mkdir_recursive cwd (dirname p) fs = (Inr u, fsA)" by simp
    obtain w fsB where wr: "fs_writeFile_wx cwd p c fsA = (w, fsB)"
      by (cases "fs_writeFile_wx cwd p c fsA")
    from assms(1) mk wr have ok: "(\<exists>v. w = Inr v) \<or> (\<exists>err. w = Inl err \<and> code err = Some EEXIST)"
      and eq: "fs1 = fsB"
      unfolding ensureFile_def ensureFile_catch_def
      by (auto split: sum.splits if_splits)
    from fs_writeFile_wx_again[OF wr ok] assms(2) eq
    have w': "fs_writeFile_wx cwd p c' fs' = (Inl (uvException EEXIST ''open'' p), fs')"
      by simp
    from fs_writeFile_wx_extends[OF wr] eq assms(2) have "extends fsA fs'"
      by (blast intro: extends_trans)
    from fs_mkdir_recursive_again[OF mk this] w' show ?thesis
      unfolding ensureFile_def ensureFile_catch_def isErrnoException_def by simp
  qed
qed

lemma dirs_loop_extends:
  "dirs_loop cwd target ds acc fs = (r, fs') \<Longrightarrow> extends fs fs'"
proof (induction ds arbitrary: acc fs)
  case Nil
  then show ?case by (simp add: extends_refl)
next
  case (Cons d ds)
  obtain x fs1 where e: "ensureDirectory cwd (join [target, d]) fs = (x, fs1)"
    by (cases "ensureDirectory cwd (join [target, d]) fs")
  note ex = ensureDirectory_extends[OF e]
  show ?case
  proof (cases x)
    case (Inl err)
    with e Cons.prems ex show ?thesis by simp
  next
    case (Inr u)
    with e Cons.prems have "dirs_loop cwd target ds (acc @ [d]) fs1 = (r, fs')" by simp
    from Cons.IH[OF this] ex show ?thesis by (blast intro: extends_trans)
  qed
qed

lemma dirs_loop_again:
  "dirs_loop cwd target ds acc fs = (Inr r, fs1) \<Longrightarrow> extends fs1 fs'
     \<Longrightarrow> dirs_loop cwd target ds acc' fs' = (Inr (acc' @ ds), fs')"
proof (induction ds arbitrary: acc acc' fs)
  case Nil
  then show ?case by simp
next
  case (Cons d ds)
  from Cons.prems(1) obtain u fsA where
    e: "ensureDirectory cwd (join [target, d]) fs = (Inr u, fsA)"
    and l: "dirs_loop cwd target ds (acc @ [d]) fsA = (Inr r, fs1)"
    by (auto split: sum.splits prod.splits)
  from dirs_loop_extends[OF l] Cons.prems(2) have "extends fsA fs'"
    by (rule extends_trans)
  from ensureDirectory_again[OF e this] Cons.IH[OF l Cons.prems(2), of "acc' @ [d]"]
  show ?case by simp
qed

lemma files_loop_extends:
  "files_loop cwd target fl cr sk fs = (r, fs') \<Longrightarrow> extends fs fs'"
proof (induction fl arbitrary: cr sk fs)
  case Nil
  then show ?case by (simp add: extends_refl)
next
  case (Cons f fl)
  obtain x fs1 where e: "ensureFile cwd (join [target, path f]) (content f) fs = (x, fs1)"
    by (cases "ensureFile cwd (join [target, path f]) (content f) fs")
  note ex = ensureFile_extends[OF e]
  show ?case
  proof (cases x)
    case (Inl err)
    with e Cons.prems ex show ?thesis by simp
  next
    case (Inr b)
    with e Cons.prems have
      "files_loop cwd target fl (if b then cr @ [path f] else cr)
         (if b then sk else sk @ [path f]) fs1 = (r, fs')"
      by (simp split: if_splits)
    from Cons.IH[OF this] ex show ?thesis by (blast intro: extends_trans)
  qed
qed

lemma files_loop_again:
  "files_loop cwd target fl cr sk fs = (Inr r, fs1) \<Longrightarrow> extends fs1 fs'
     \<Longrightarrow> files_loop cwd target fl cr' sk' fs' = (Inr (cr', sk' @ map path fl), fs')"
proof (induction fl arbitrary: cr sk sk' fs)
  case Nil
  then show ?case by simp
next
  case (Cons f fl)
  from Cons.prems(1) obtain b fsA where
    e: "ensureFile cwd (join [target, path f]) (content f) fs = (Inr b, fsA)"
    and l: "files_loop cwd target fl (if b then cr @ [path f] else cr)
         (if b then sk else sk @ [path f]) fsA = (Inr r, fs1)"
    by (auto split: sum.splits prod.splits if_splits)
  from files_loop_extends[OF l] Cons.prems(2) have "extends fsA fs'"
    by (rule extends_trans)
  from ensureFile_again[OF e this] Cons.IH[OF l Cons.prems(2), of "sk' @ [path f]"]
  show ?case by simp
qed

section \<open>What the file materializer does to a path\<close>

lemma ensureFile_existing:
  assumes "ensureFile cwd p c fs = (Inr b, fs1)" "nodes fs (fs_key cwd p) = Some n"
  shows "b = False"
proof (rule ccontr)
  assume "b \<noteq> False"
  then have b: "b" by simp
  from assms(1) b obtain u fsA v where
    mk: "fs_mkdir_recursive cwd (dirname p) fs = (Inr u, fsA)"
    and wr: "fs_writeFile_wx cwd p c fsA = (Inr v, fs1)"
    unfolding ensureFile_def ensureFile_catch_def
    by (auto split: sum.splits prod.splits if_splits)
  from fs_mkdir_recursive_extends[OF mk] assms(2) have "nodes fsA (fs_key cwd p) = Some n"
    by (rule extends_node)
  with wr show False
    unfolding fs_writeFile_wx_def Let_def
    by (auto split: if_splits option.splits node.splits)
qed

lemma ensureFile_created:
  assumes "ensureFile cwd p c fs = (Inr True, fs1)"
  shows "nodes fs1 (fs_key cwd p) = Some (File c)"
proof -
  from assms obtain u fsA v where
    wr: "fs_writeFile_wx cwd p c fsA = (Inr v, fs1)"
    unfolding ensureFile_def ensureFile_catch_def
    by (auto split: sum.splits prod.splits if_splits)
  then show ?thesis
    unfolding fs_writeFile_wx_def Let_def
    by (auto split: if_splits option.splits node.splits)
qed

lemma files_loop_step:
  assumes "files_loop cwd target (f # fl) cr sk fs = (Inr (cr', sk'), fs')"
  obtains b fsA where
    "ensureFile cwd (join [target, path f]) (content f) fs = (Inr b, fsA)"
    "files_loop cwd target fl (if b then cr @ [path f] else cr)
       (if b then sk else sk @ [path f]) fsA = (Inr (cr', sk'), fs')"
  using assms by (auto split: sum.splits prod.splits if_splits)

lemma files_loop_skips_existing:
  "files_loop cwd target fl cr sk fs = (Inr (cr', sk'), fs') \<Longrightarrow> f \<in> set fl
     \<Longrightarrow> nodes fs (fs_key cwd (join [target, path f])) = Some n \<Longrightarrow> path f \<in> set sk'"
proof (induction fl arbitrary: cr sk fs)
  case Nil
  then show ?case by simp
next
  case (Cons g fl)
  from Cons.prems(1) obtain b fsA where
    e: "ensureFile cwd (join [target, path g]) (content g) fs = (Inr b, fsA)"
    and l: "files_loop cwd target fl (if b then cr @ [path g] else cr)
       (if b then sk else sk @ [path g]) fsA = (Inr (cr', sk'), fs')"
    by (rule files_loop_step)
  show ?case
  proof (cases "f = g")
    case True
    with e Cons.prems(3) have "b = False" by (blast dest: ensureFile_existing)
    with l files_loop_result[OF l] True show ?thesis by auto
  next
    case False
    with Cons.prems(2) have m: "f \<in> set fl" by simp
    from ensureFile_extends[OF e] Cons.prems(3)
    have "nodes fsA (fs_key cwd (join [target, path f])) = Some n" by (rule extends_node)
    from Cons.IH[OF l m this] show ?thesis .
  qed
qed

lemma files_loop_not_created:
  "files_loop cwd target fl cr sk fs = (Inr (cr @ c, sk'), fs')
     \<Longrightarrow> (\<And>fs'' x. extends fs fs'' \<Longrightarrow> ensureFile cwd (join [target, p]) x fs'' = (Inr False, fs''))
     \<Longrightarrow> p \<notin> set c"
proof (induction fl arbitrary: cr sk fs c)
  case Nil
  then show ?case by simp
next
  case (Cons g fl)
  from Cons.prems(1) obtain b fsA where
    e: "ensureFile cwd (join [target, path g]) (content g) fs = (Inr b, fsA)"
    and l: "files_loop cwd target fl (if b then cr @ [path g] else cr)
       (if b then sk else sk @ [path g]) fsA = (Inr (cr @ c, sk'), fs')"
    by (rule files_loop_step)
  note ex = ensureFile_extends[OF e]
  have settled: "\<And>fs'' x. extends fsA fs'' \<Longrightarrow> ensureFile cwd (join [target, p]) x fs'' = (Inr False, fs'')"
    using Cons.prems(2) ex by (blast intro: extends_trans)
  show ?case
  proof (cases b)
    case True
    from Cons.prems(2)[OF extends_refl, of "content g"] e True have ne: "path g \<noteq> p" by auto
    from True l files_loop_result[OF l] obtain c2 where c: "c = path g # c2" by auto
    with True l have "files_loop cwd target fl (cr @ [path g]) sk fsA = (Inr ((cr @ [path g]) @ c2, sk'), fs')"
      by simp
    from Cons.IH[OF this settled] c ne show ?thesis by simp
  next
    case False
    with l have "files_loop cwd target fl cr (sk @ [path g]) fsA = (Inr (cr @ c, sk'), fs')"
      by simp
    from Cons.IH[OF this settled] show ?thesis by simp
  qed
qed


lemma files_loop_created_content:
  "files_loop cwd target fl cr sk fs = (Inr (cr @ c, sk'), fs') \<Longrightarrow> p \<in> set c
     \<Longrightarrow> \<exists>x. declared_content fl p = Some x
           \<and> nodes fs' (fs_key cwd (join [target, p])) = Some (File x)"
proof (induction fl arbitrary: cr sk fs c)
  case Nil
  then show ?case by simp
next
  case (Cons g fl)
  from Cons.prems(1) obtain b fsA where
    e: "ensureFile cwd (join [target, path g]) (content g) fs = (Inr b, fsA)"
    and l: "files_loop cwd target fl (if b then cr @ [path g] else cr)
       (if b then sk else sk @ [path g]) fsA = (Inr (cr @ c, sk'), fs')"
    by (rule files_loop_step)
  show ?case
  proof (cases b)
    case True
    from True l files_loop_result[OF l] obtain c2 where c: "c = path g # c2" by auto
    with True l have l2: "files_loop cwd target fl (cr @ [path g]) sk fsA = (Inr ((cr @ [path g]) @ c2, sk'), fs')"
      by simp
    show ?thesis
    proof (cases "p = path g")
      case True
      from e \<open>b\<close> have "nodes fsA (fs_key cwd (join [target, path g])) = Some (File (content g))"
        by (simp add: ensureFile_created)
      with files_loop_extends[OF l2] have "nodes fs' (fs_key cwd (join [target, path g])) = Some (File (content g))"
        by (blast dest: extends_node)
      with True show ?thesis by (simp add: declared_content_def)
    next
      case False
      with c Cons.prems(2) have "p \<in> set c2" by simp
      from Cons.IH[OF l2 this] False show ?thesis by (simp add: declared_content_def)
    qed
  next
    case False
    with l have l2: "files_loop cwd target fl cr (sk @ [path g]) fsA = (Inr (cr @ c, sk'), fs')"
      by simp
    have "\<And>fs'' x. extends fsA fs'' \<Longrightarrow> ensureFile cwd (join [target, path g]) x fs'' = (Inr False, fs'')"
      using ensureFile_again[OF e] by blast
    from files_loop_not_created[OF l2 this] Cons.prems(2) have "p \<noteq> path g" by auto
    with Cons.IH[OF l2 Cons.prems(2)] show ?thesis by (simp add: declared_content_def)
  qed
qed

lemma scaffoldProject_extends:
  assumes "scaffoldProject cwd PATTERNS inputPath patternType baseDir fs = (res, fs')"
  shows "extends fs fs'"
proof (cases "resolveSafeTarget cwd inputPath baseDir")
  case (Inl e)
  with assms show ?thesis unfolding scaffoldProject_def by (simp add: extends_refl)
next
  case (Inr target)
  obtain x fsA where e: "ensureDirectory cwd target fs = (x, fsA)"
    by (cases "ensureDirectory cwd target fs")
  note x1 = ensureDirectory_extends[OF e]
  show ?thesis
  proof (cases x)
    case (Inl err)
    with Inr e assms x1 show ?thesis unfolding scaffoldProject_def by simp
  next
    case u: (Inr u)
    obtain y fsB where d: "dirs_loop cwd target (directories (PATTERNS patternType)) [] fsA = (y, fsB)"
      by (cases "dirs_loop cwd target (directories (PATTERNS patternType)) [] fsA")
    from x1 dirs_loop_extends[OF d] have x2: "extends fs fsB" by (rule extends_trans)
    show ?thesis
    proof (cases y)
      case (Inl err)
      with Inr e u d assms x2 show ?thesis unfolding scaffoldProject_def by simp
    next
      case ds: (Inr ds)
      obtain z fsC where f: "files_loop cwd target (files (PATTERNS patternType)) [] [] fsB = (z, fsC)"
        by (cases "files_loop cwd target (files (PATTERNS patternType)) [] [] fsB")
      from x2 files_loop_extends[OF f] have x3: "extends fs fsC" by (rule extends_trans)
      from Inr e u d ds f assms have "fs' = fsC"
        unfolding scaffoldProject_def Let_def by (auto split: sum.splits prod.splits)
      with x3 show ?thesis by simp
    qed
  qed
qed

lemma fs_writeFile_wx_existing:
  assumes "nodes fs (fs_key cwd p) = Some n"
  shows "\<exists>e. fs_writeFile_wx cwd p c fs = (Inl e, fs)"
  using assms unfolding fs_writeFile_wx_def Let_def
  by (auto split: option.splits node.splits)

lemma seeded_target: "resolveSafeTarget ''/work'' ''app'' ''/tmp/X'' = Inr ''/tmp/X/app''"
  by code_simp

lemma seeded_file:
  "nodes seeded_fs (fs_key ''/work'' (join [''/tmp/X/app'', ''src/app.ts''])) = Some (File ''// mine'')"
  by code_simp

section \<open>Scaffolding twice\<close>

text \<open>
  Claim C3. When a call of \<open>scaffoldProject\<close> has succeeded, the same call on the
  file system it left succeeds again, changes nothing, creates no file, skips every
  file entry of the pattern (so \<open>skippedFiles\<close> is as long as the pattern's file list)
  and reports the same \<open>createdDirs\<close>. This holds for every file system the first
  call started from, an empty root among them.
\<close>

theorem scaffold_twice:
  assumes "scaffoldProject cwd PATTERNS inputPath patternType baseDir fs = (Inr r1, fs1)"
  shows "\<exists>r2. scaffoldProject cwd PATTERNS inputPath patternType baseDir fs1 = (Inr r2, fs1)
     \<and> createdFiles r2 = []
     \<and> skippedFiles r2 = map path (files (PATTERNS patternType))
     \<and> length (skippedFiles r2) = length (files (PATTERNS patternType))
     \<and> createdDirs r2 = createdDirs r1"
proof -
  from assms obtain target fsA fsB where
    g: "resolveSafeTarget cwd inputPath baseDir = Inr target"
    and e: "ensureDirectory cwd target fs = (Inr (), fsA)"
    and d: "dirs_loop cwd target (directories (PATTERNS patternType)) [] fsA = (Inr (createdDirs r1), fsB)"
    and f: "files_loop cwd target (files (PATTERNS patternType)) [] [] fsB = (Inr (createdFiles r1, skippedFiles r1), fs1)"
    by (rule scaffoldProject_success)
  have x3: "extends fs1 fs1" by (rule extends_refl)
  from files_loop_extends[OF f] have x2: "extends fsB fs1" .
  from dirs_loop_extends[OF d] x2 have x1: "extends fsA fs1" by (rule extends_trans)
  from ensureDirectory_again[OF e x1]
  have e2: "ensureDirectory cwd target fs1 = (Inr (), fs1)" .
  from dirs_loop_again[OF d x2, of "[]"]
  have d2: "dirs_loop cwd target (directories (PATTERNS patternType)) [] fs1
    = (Inr (directories (PATTERNS patternType)), fs1)" by simp
  from files_loop_again[OF f x3, of "[]" "[]"]
  have f2: "files_loop cwd target (files (PATTERNS patternType)) [] [] fs1
    = (Inr ([], map path (files (PATTERNS patternType))), fs1)" by simp
  from dirs_loop_result[OF d] have "createdDirs r1 = directories (PATTERNS patternType)" by simp
  with g e2 d2 f2 show ?thesis
    unfolding scaffoldProject_def Let_def by simp
qed

theorem scaffold_twice_witness:
  "scaffoldProject ''/work'' example_catalog ''app'' Layered ''/tmp/X'' empty_fs
     = (Inr example_result, snd example_run)
   \<and> (\<exists>r2. scaffoldProject ''/work'' example_catalog ''app'' Layered ''/tmp/X'' (snd example_run)
          = (Inr r2, snd example_run)
        \<and> createdFiles r2 = []
        \<and> skippedFiles r2 = [''src/app.ts'']
        \<and> length (skippedFiles r2) = 1
        \<and> createdDirs r2 = [''src/components''])"
  using scaffold_twice[OF example_run_eq] example_run_eq
  by (simp add: example_catalog_def example_result_def)

section \<open>Existing files are kept\<close>

text \<open>
  Claim C4. If a regular file stands at the target path of a file entry before
  \<open>scaffoldProject\<close> runs, it holds the same content afterwards, whether the run
  succeeds or fails; when the run succeeds the entry's path is in \<open>skippedFiles\<close>;
  and the exclusive write to that path fails without touching the file system,
  whatever content it is given.
\<close>

theorem scaffold_no_clobber:
  assumes "resolveSafeTarget cwd inputPath baseDir = Inr target"
    and "f \<in> set (files (PATTERNS patternType))"
    and "nodes fs (fs_key cwd (join [target, path f])) = Some (File old)"
    and "scaffoldProject cwd PATTERNS inputPath patternType baseDir fs = (res, fs')"
  shows "nodes fs' (fs_key cwd (join [target, path f])) = Some (File old)
       \<and> (\<forall>r. res = Inr r \<longrightarrow> path f \<in> set (skippedFiles r))
       \<and> (\<forall>c. \<exists>e. fs_writeFile_wx cwd (join [target, path f]) c fs = (Inl e, fs))"
proof -
  let ?k = "fs_key cwd (join [target, path f])"
  from scaffoldProject_extends[OF assms(4)] assms(3)
  have kept: "nodes fs' ?k = Some (File old)" by (rule extends_node)
  have skipped: "path f \<in> set (skippedFiles r)" if "res = Inr r" for r
  proof -
    from assms(4) that obtain t fsA fsB where
      g: "resolveSafeTarget cwd inputPath baseDir = Inr t"
      and e: "ensureDirectory cwd t fs = (Inr (), fsA)"
      and d: "dirs_loop cwd t (directories (PATTERNS patternType)) [] fsA = (Inr (createdDirs r), fsB)"
      and l: "files_loop cwd t (files (PATTERNS patternType)) [] [] fsB
          = (Inr (createdFiles r, skippedFiles r), fs')"
      by (auto elim: scaffoldProject_success)
    from g assms(1) have t: "t = target" by simp
    from ensureDirectory_extends[OF e] dirs_loop_extends[OF d] have "extends fs fsB"
      by (rule extends_trans)
    from this assms(3) have "nodes fsB ?k = Some (File old)" by (rule extends_node)
    from files_loop_skips_existing[OF l[unfolded t] assms(2) this] show ?thesis .
  qed
  from fs_writeFile_wx_existing[OF assms(3)]
  have excl: "\<forall>c. \<exists>e. fs_writeFile_wx cwd (join [target, path f]) c fs = (Inl e, fs)" by blast
  from kept skipped excl show ?thesis by blast
qed

theorem scaffold_no_clobber_witness:
  "resolveSafeTarget ''/work'' ''app'' ''/tmp/X'' = Inr ''/tmp/X/app''
   \<and> nodes seeded_fs (fs_key ''/work'' (join [''/tmp/X/app'', ''src/app.ts''])) = Some (File ''// mine'')
   \<and> scaffoldProject ''/work'' example_catalog ''app'' Layered ''/tmp/X'' seeded_fs
       = (Inr seeded_result, snd seeded_run)
   \<and> nodes (snd seeded_run) (fs_key ''/work'' (join [''/tmp/X/app'', ''src/app.ts''])) = Some (File ''// mine'')
   \<and> ''src/app.ts'' \<in> set (skippedFiles seeded_result)
   \<and> (\<forall>c. \<exists>e. fs_writeFile_wx ''/work'' (join [''/tmp/X/app'', ''src/app.ts'']) c seeded_fs = (Inl e, seeded_fs))"
proof -
  let ?f = "\<lparr>path = ''src/app.ts'', content = ''export {}'' @ [CHR 0x0A]\<rparr>"
  have m: "?f \<in> set (files (example_catalog Layered))"
    by (simp add: example_catalog_def)
  have s: "nodes seeded_fs (fs_key ''/work'' (join [''/tmp/X/app'', path ?f])) = Some (File ''// mine'')"
    using seeded_file by simp
  have "fst seeded_run = Inr seeded_result"
    by code_simp
  then have r: "scaffoldProject ''/work'' example_catalog ''app'' Layered ''/tmp/X'' seeded_fs
      = (Inr seeded_result, snd seeded_run)"
    by (simp add: seeded_run_def prod_eq_iff)
  from scaffold_no_clobber[OF seeded_target m s r] seeded_target seeded_file r
  show ?thesis by simp
qed

section \<open>Created files hold the declared content\<close>

text \<open>
  Claim C5. After a successful \<open>scaffoldProject\<close>, every path in \<open>createdFiles\<close>
  holds, under the resolved target, exactly the content the pattern declares for it
  (that of the first entry with this path), character for character. This holds from
  every initial file system, an empty root among them.
\<close>

theorem scaffold_content_fidelity:
  assumes "scaffoldProject cwd PATTERNS inputPath patternType baseDir fs = (Inr r, fs')"
    and "p \<in> set (createdFiles r)"
  shows "\<exists>x. declared_content (files (PATTERNS patternType)) p = Some x
           \<and> nodes fs' (fs_key cwd (join [resolvedTarget r, p])) = Some (File x)"
proof -
  from assms(1) obtain target fsA fsB where
    l: "files_loop cwd target (files (PATTERNS patternType)) [] [] fsB
          = (Inr (createdFiles r, skippedFiles r), fs')"
    and t: "resolvedTarget r = target"
    by (rule scaffoldProject_success)
  from l have "files_loop cwd target (files (PATTERNS patternType)) [] [] fsB
          = (Inr ([] @ createdFiles r, skippedFiles r), fs')" by simp
  from files_loop_created_content[OF this assms(2)] t show ?thesis by simp
qed

theorem scaffold_content_fidelity_witness:
  "scaffoldProject ''/work'' example_catalog ''app'' Layered ''/tmp/X'' empty_fs
     = (Inr example_result, snd example_run)
   \<and> ''src/app.ts'' \<in> set (createdFiles example_result)
   \<and> declared_content (files (example_catalog Layered)) ''src/app.ts'' = Some (''export {}'' @ [CHR 0x0A])
   \<and> nodes (snd example_run) (fs_key ''/work'' (join [resolvedTarget example_result, ''src/app.ts'']))
       = Some (File (''export {}'' @ [CHR 0x0A]))"
proof -
  have m: "''src/app.ts'' \<in> set (createdFiles example_result)"
    by (simp add: example_result_def)
  have d: "declared_content (files (example_catalog Layered)) ''src/app.ts'' = Some (''export {}'' @ [CHR 0x0A])"
    by (simp add: declared_content_def example_catalog_def)
  from scaffold_content_fidelity[OF example_run_eq m] d example_run_eq m
  show ?thesis by auto
qed

section \<open>Resolved paths\<close>

text \<open>
  A path resolved against an absolute argument is a slash followed by clean segments
  joined by slashes; resolving it again changes nothing, and its segments are read
  back from the string.
\<close>

lemma split_sep_nonempty [simp]: "split_sep s \<noteq> []"
  by (induction s) (auto split: list.splits)

lemma split_sep_no_sep: "CHR ''/'' \<notin> set s \<Longrightarrow> split_sep s = [s]"
  by (induction s) auto

lemma split_sep_append: "split_sep (a @ CHR ''/'' # b) = split_sep a @ split_sep b"
  by (induction a) (auto split: list.splits)

lemma split_sep_join_sep:
  "\<forall>s\<in>set segs. CHR ''/'' \<notin> set s \<Longrightarrow> segs \<noteq> [] \<Longrightarrow> split_sep (join_sep segs) = segs"
proof (induction segs rule: join_sep.induct)
  case 1
  then show ?case by simp
next
  case (2 s)
  then show ?case by (simp add: split_sep_no_sep)
next
  case (3 s t ts)
  then show ?case by (simp add: split_sep_append split_sep_no_sep)
qed

lemma norm_step_clean:
  "clean res \<Longrightarrow> CHR ''/'' \<notin> set seg \<Longrightarrow> clean (norm_step False res seg)"
  unfolding clean_def norm_step_def
  by (auto dest: in_set_butlastD)

lemma foldl_norm_step_clean:
  "clean res \<Longrightarrow> \<forall>s\<in>set xs. CHR ''/'' \<notin> set s \<Longrightarrow> clean (foldl (norm_step False) res xs)"
  by (induction xs arbitrary: res) (auto simp: norm_step_clean)

lemma split_sep_pieces: "s \<in> set (split_sep p) \<Longrightarrow> CHR ''/'' \<notin> set s"
  by (induction p arbitrary: s) (auto split: list.splits if_splits)

lemma norm_segs_clean: "clean (norm_segs False p)"
  unfolding norm_segs_def
  by (rule foldl_norm_step_clean) (auto simp: clean_def split_sep_pieces)

lemma foldl_norm_step_id:
  "clean xs \<Longrightarrow> foldl (norm_step a) res xs = res @ xs"
  by (induction xs arbitrary: res) (auto simp: clean_def norm_step_def)

lemma foldl_norm_step_empty: "foldl (norm_step a) res [[]] = res"
  by (simp add: norm_step_def)

lemma norm_segs_rendered:
  assumes "clean segs"
  shows "norm_segs False (CHR ''/'' # join_sep segs @ ''/'') = segs"
proof (cases "segs = []")
  case True
  then show ?thesis by (simp add: norm_segs_def norm_step_def)
next
  case False
  from assms have ns: "\<forall>s\<in>set segs. CHR ''/'' \<notin> set s" by (simp add: clean_def)
  have "split_sep (CHR ''/'' # join_sep segs @ ''/'') = [] # segs @ [[]]"
    using split_sep_append[of "join_sep segs" "[]"] split_sep_join_sep[OF ns False] by simp
  then show ?thesis
    using assms by (simp add: norm_segs_def foldl_norm_step_id norm_step_def)
qed

lemma segs_of_rendered:
  assumes "clean segs"
  shows "segs_of (CHR ''/'' # join_sep segs) = segs"
proof (cases "segs = []")
  case True
  then show ?thesis by (simp add: segs_of_def)
next
  case False
  from assms have ns: "\<forall>s\<in>set segs. CHR ''/'' \<notin> set s" by (simp add: clean_def)
  from assms have "filter (\<lambda>s. s \<noteq> []) segs = segs" by (simp add: clean_def)
  with split_sep_join_sep[OF ns False] show ?thesis by (simp add: segs_of_def)
qed

lemma resolve_collect_absolute:
  "\<exists>p\<in>set ps. isAbsolute p \<Longrightarrow> snd (resolve_collect ps acc) = True"
  by (induction ps arbitrary: acc) (auto simp: isAbsolute_def)

lemma resolve_absolute_form:
  assumes "\<exists>p\<in>set args. isAbsolute p"
  shows "\<exists>segs. clean segs \<and> resolve cwd args = CHR ''/'' # join_sep segs"
proof -
  obtain rp ab where c: "resolve_collect (rev args @ [cwd]) [] = (rp, ab)"
    by (cases "resolve_collect (rev args @ [cwd]) []")
  from assms have "\<exists>p\<in>set (rev args @ [cwd]). isAbsolute p" by auto
  from resolve_collect_absolute[OF this, of "[]"] c have "ab" by simp
  with c have "resolve cwd args = CHR ''/'' # join_sep (norm_segs False rp)"
    by (simp add: resolve_def normalizeString_def)
  with norm_segs_clean show ?thesis by blast
qed

lemma isAbsolute_rendered [simp]: "isAbsolute (CHR ''/'' # s)"
  by (simp add: isAbsolute_def)

lemma resolve_rendered:
  assumes "clean segs"
  shows "resolve cwd [CHR ''/'' # join_sep segs] = CHR ''/'' # join_sep segs"
  using norm_segs_rendered[OF assms]
  by (simp add: resolve_def normalizeString_def isAbsolute_def)

lemma common_len_le: "common_len xs ys \<le> length xs"
  by (induction xs ys rule: common_len.induct) auto

lemma common_len_prefix: "common_len xs ys = length xs \<longleftrightarrow> prefix xs ys"
  by (induction xs ys rule: common_len.induct) auto

lemma join_sep_Cons_startsWith: "startsWith (join_sep (x # xs)) x"
  by (cases xs) (auto simp: startsWith_def)

lemma rendered_inject:
  assumes "clean B" "clean T" "CHR ''/'' # join_sep B = CHR ''/'' # join_sep T"
  shows "B = T"
proof -
  from assms(3) have "segs_of (CHR ''/'' # join_sep B) = segs_of (CHR ''/'' # join_sep T)"
    by (rule arg_cong)
  then show ?thesis
    by (simp only: segs_of_rendered[OF assms(1)] segs_of_rendered[OF assms(2)])
qed

lemma relative_form:
  assumes "clean B" "clean T" "resolve cwd [b] = CHR ''/'' # join_sep B"
  shows "relative cwd b (CHR ''/'' # join_sep T) =
     (if B = T then []
      else join_sep (replicate (length B - common_len B T) ''..'' @ drop (common_len B T) T))"
proof (cases "b = CHR ''/'' # join_sep T")
  case True
  with assms(3) resolve_rendered[OF assms(2), of cwd] have "CHR ''/'' # join_sep B = CHR ''/'' # join_sep T"
    by simp
  from rendered_inject[OF assms(1,2) this] True show ?thesis
    by (simp add: relative_def)
next
  case False
  show ?thesis
  proof (cases "B = T")
    case True
    with assms(3) resolve_rendered[OF assms(2), of cwd] show ?thesis
      by (simp add: relative_def)
  next
    case ne: False
    with rendered_inject[OF assms(1,2)] have "CHR ''/'' # join_sep B \<noteq> CHR ''/'' # join_sep T"
      by blast
    with False ne assms(3) resolve_rendered[OF assms(2), of cwd]
      segs_of_rendered[OF assms(1)] segs_of_rendered[OF assms(2)]
    show ?thesis
      by (simp add: relative_def Let_def)
  qed
qed

lemma guard_forms:
  assumes "isAbsolute baseDir"
  obtains B T where "clean B" "clean T"
    "resolve cwd [baseDir] = CHR ''/'' # join_sep B"
    "resolve cwd [baseDir, inputPath] = CHR ''/'' # join_sep T"
    "within_base cwd baseDir inputPath = prefix B T"
proof -
  from assms resolve_absolute_form[of "[baseDir]" cwd] obtain B where
    B: "clean B" "resolve cwd [baseDir] = CHR ''/'' # join_sep B" by auto
  from assms resolve_absolute_form[of "[baseDir, inputPath]" cwd] obtain T where
    T: "clean T" "resolve cwd [baseDir, inputPath] = CHR ''/'' # join_sep T" by auto
  from B T have "within_base cwd baseDir inputPath = prefix B T"
    by (simp add: within_base_def segs_of_rendered)
  with B T that show ?thesis by blast
qed

lemma guard_escape:
  assumes "isAbsolute baseDir" "\<not> within_base cwd baseDir inputPath"
  shows "startsWith (relative cwd baseDir (resolve cwd [baseDir, inputPath])) ''..''"
proof -
  from assms(1) obtain B T where f: "clean B" "clean T"
    "resolve cwd [baseDir] = CHR ''/'' # join_sep B"
    "resolve cwd [baseDir, inputPath] = CHR ''/'' # join_sep T"
    "within_base cwd baseDir inputPath = prefix B T"
    by (rule guard_forms)
  from f(5) assms(2) have np: "\<not> prefix B T" by simp
  then have ne: "B \<noteq> T" by auto
  from np common_len_prefix[of B T] common_len_le[of B T] have "common_len B T < length B"
    by simp
  then obtain n where n: "length B - common_len B T = Suc n"
    by (cases "length B - common_len B T") auto
  from relative_form[OF f(1,2,3)] ne f(4) n
  have "relative cwd baseDir (resolve cwd [baseDir, inputPath])
      = join_sep (''..'' # (replicate n ''..'' @ drop (common_len B T) T))" by simp
  with join_sep_Cons_startsWith show ?thesis by simp
qed

lemma join_sep_clean_not_absolute:
  assumes "clean xs"
  shows "\<not> isAbsolute (join_sep xs)"
proof (cases xs)
  case Nil
  then show ?thesis by (simp add: isAbsolute_def)
next
  case (Cons x r)
  with assms have "x \<noteq> []" "CHR ''/'' \<notin> set x" by (auto simp: clean_def)
  then have "hd x \<noteq> CHR ''/''" by (cases x) auto
  with Cons \<open>x \<noteq> []\<close> show ?thesis by (cases r) (auto simp: isAbsolute_def)
qed

lemma guard_inside:
  assumes "isAbsolute baseDir" "within_base cwd baseDir inputPath"
  shows "relative cwd baseDir (resolve cwd [baseDir, inputPath])
           = join_sep (drop (length (segs_of (resolve cwd [baseDir])))
                (segs_of (resolve cwd [baseDir, inputPath])))
       \<and> \<not> isAbsolute (relative cwd baseDir (resolve cwd [baseDir, inputPath]))"
proof -
  from assms(1) obtain B T where f: "clean B" "clean T"
    "resolve cwd [baseDir] = CHR ''/'' # join_sep B"
    "resolve cwd [baseDir, inputPath] = CHR ''/'' # join_sep T"
    "within_base cwd baseDir inputPath = prefix B T"
    by (rule guard_forms)
  from f(5) assms(2) have p: "prefix B T" by simp
  then have k: "common_len B T = length B" by (simp add: common_len_prefix)
  from p have eq: "B = T \<Longrightarrow> drop (length B) T = []" by simp
  from relative_form[OF f(1,2,3)] k f(4) eq
  have r: "relative cwd baseDir (resolve cwd [baseDir, inputPath]) = join_sep (drop (length B) T)"
    by auto
  from f(2) have "clean (drop (length B) T)" by (auto simp: clean_def dest: in_set_dropD)
  from join_sep_clean_not_absolute[OF this] r f(1,2,3,4) show ?thesis
    by (simp add: segs_of_rendered)
qed

lemma resolveSafeTarget_inside:
  assumes "isAbsolute baseDir" "within_base cwd baseDir inputPath"
    and "\<not> startsWith (join_sep (drop (length (segs_of (resolve cwd [baseDir])))
                (segs_of (resolve cwd [baseDir, inputPath])))) ''..''"
  shows "resolveSafeTarget cwd inputPath baseDir = Inr (resolve cwd [baseDir, inputPath])"
proof -
  let ?rel = "relative cwd baseDir (resolve cwd [baseDir, inputPath])"
  from guard_inside[OF assms(1,2)] have na: "\<not> isAbsolute ?rel" by blast
  from guard_inside[OF assms(1,2)] assms(3) have "\<not> startsWith ?rel ''..''" by metis
  with na show ?thesis by (simp add: resolveSafeTarget_def Let_def)
qed

section \<open>Names that begin with two dots\<close>

text \<open>
  Claim C1. An input path that resolves to a place inside the base directory is to be
  returned resolved, without a security violation. The guard tests the relative path
  with \<^verbatim>\<open>startsWith('..')\<close>, which also holds for a name that merely begins
  with two dots: \<^verbatim>\<open>..foo\<close> resolves to \<^verbatim>\<open>/tmp/X/..foo\<close>, inside \<^verbatim>\<open>/tmp/X\<close>,
  and is rejected. (\<open>resolveSafeTarget_inside\<close> above: every other input path that
  stays inside an absolute base directory is returned resolved.)
\<close>

theorem guard_rejects_dotted_name:
  "within_base ''/work'' ''/tmp/X'' ''..foo''
   \<and> resolve ''/work'' [''/tmp/X'', ''..foo''] = ''/tmp/X/..foo''
   \<and> resolveSafeTarget ''/work'' ''..foo'' ''/tmp/X''
       = Inl (Error None (''Security violation: Target path '' @ quoted ''..foo'' @
                          '' must be within the current working directory.''))"
  by code_simp

section \<open>Paths that leave the base directory\<close>

text \<open>
  For an absolute base directory and an input path whose resolution is not within it,
  \<open>resolveSafeTarget\<close> fails, and \<open>scaffoldProject\<close> fails with the same error and
  returns the file system it was given.
\<close>

lemma guard_rejects_escape:
  assumes "isAbsolute baseDir" "\<not> within_base cwd baseDir inputPath"
  shows "\<exists>e. resolveSafeTarget cwd inputPath baseDir = Inl e
            \<and> scaffoldProject cwd PATTERNS inputPath patternType baseDir fs = (Inl e, fs)"
proof -
  from guard_escape[OF assms]
  have "\<exists>e. resolveSafeTarget cwd inputPath baseDir = Inl e"
    by (simp add: resolveSafeTarget_def Let_def)
  then obtain e where e: "resolveSafeTarget cwd inputPath baseDir = Inl e" ..
  then have "scaffoldProject cwd PATTERNS inputPath patternType baseDir fs = (Inl e, fs)"
    by (simp add: scaffoldProject_def)
  with e show ?thesis by blast
qed

text \<open>
  The test the guard makes, for every input path and base directory.
\<close>

lemma guard_fails_iff_prefix:
  "(\<exists>e. resolveSafeTarget cwd inputPath baseDir = Inl e) \<longleftrightarrow>
     (startsWith (relative cwd baseDir (resolve cwd [baseDir, inputPath])) ''..''
      \<or> isAbsolute (relative cwd baseDir (resolve cwd [baseDir, inputPath])))"
  by (auto simp: resolveSafeTarget_def Let_def)

text \<open>
  When the guard fails, for every input path: it fails when the resolution is not
  within the base directory, and also when it is within it and the first segment below
  the base directory starts with two dots.
\<close>

lemma guard_fails_exactly:
  assumes "isAbsolute baseDir"
  shows "(\<exists>e. resolveSafeTarget cwd inputPath baseDir = Inl e) \<longleftrightarrow>
     (\<not> within_base cwd baseDir inputPath
      \<or> startsWith (join_sep (drop (length (segs_of (resolve cwd [baseDir])))
                      (segs_of (resolve cwd [baseDir, inputPath])))) ''..'')"
proof (cases "within_base cwd baseDir inputPath")
  case False
  with guard_rejects_escape[OF assms False] show ?thesis by blast
next
  case True
  let ?rel = "relative cwd baseDir (resolve cwd [baseDir, inputPath])"
  let ?below = "join_sep (drop (length (segs_of (resolve cwd [baseDir])))
                      (segs_of (resolve cwd [baseDir, inputPath])))"
  from guard_inside[OF assms True] have r: "?rel = ?below" and na: "\<not> isAbsolute ?rel"
    by blast+
  have "(\<exists>e. resolveSafeTarget cwd inputPath baseDir = Inl e) \<longleftrightarrow> startsWith ?rel ''..''"
    using na by (auto simp: resolveSafeTarget_def Let_def)
  with r True show ?thesis by metis
qed

text \<open>
  Claim C2. The guard is to fail exactly when the relative path from the base
  directory to the resolved path begins with a parent-directory marker or is absolute.
  For \<^verbatim>\<open>..cache\<close> under \<^verbatim>\<open>/tmp/X\<close> the resolution stays within the base
  directory and the relative path is the one segment \<^verbatim>\<open>..cache\<close>, which is neither
  the marker \<^verbatim>\<open>..\<close> nor absolute; the guard fails all the same, because it tests
  the first two characters, and \<open>scaffoldProject\<close> ends with that error.
\<close>

theorem guard_fails_without_marker:
  "within_base ''/work'' ''/tmp/X'' ''..cache''
   \<and> relative ''/work'' ''/tmp/X'' (resolve ''/work'' [''/tmp/X'', ''..cache'']) = ''..cache''
   \<and> segs_of ''..cache'' = [''..cache'']
   \<and> hd (segs_of ''..cache'') \<noteq> ''..''
   \<and> \<not> isAbsolute ''..cache''
   \<and> resolveSafeTarget ''/work'' ''..cache'' ''/tmp/X''
       = Inl (Error None (''Security violation: Target path '' @ quoted ''..cache'' @
                          '' must be within the current working directory.''))
   \<and> fst (scaffoldProject ''/work'' example_catalog ''..cache'' Layered ''/tmp/X'' empty_fs)
       = Inl (Error None (''Security violation: Target path '' @ quoted ''..cache'' @
                          '' must be within the current working directory.''))"
  by code_simp

section \<open>The empty input path\<close>

text \<open>
  Claim C10. For an empty input path the guard raises nothing: with an absolute base
  directory it returns the resolved base directory, which is the base directory
  string itself when that is in resolved form (as the working directory of a process
  is). The input schema is what rejects an empty path.
\<close>

theorem empty_input_path:
  "(isAbsolute baseDir \<longrightarrow> resolveSafeTarget cwd [] baseDir = Inr (resolve cwd [baseDir]))
   \<and> (resolve cwd [baseDir] = baseDir \<longrightarrow> resolveSafeTarget cwd [] baseDir = Inr baseDir)
   \<and> ScaffoldInputSchema ([], t) = None"
proof -
  have same: "resolve cwd [baseDir, []] = resolve cwd [baseDir]"
    by (simp add: resolve_def)
  have a: "resolveSafeTarget cwd [] baseDir = Inr (resolve cwd [baseDir])" if "isAbsolute baseDir"
  proof -
    from that resolve_absolute_form[of "[baseDir]" cwd] obtain B where
      B: "clean B" "resolve cwd [baseDir] = CHR ''/'' # join_sep B" by auto
    from relative_form[OF B(1) B(1) B(2)] B(2)
    have "relative cwd baseDir (resolve cwd [baseDir]) = []" by simp
    with same show ?thesis
      by (simp add: resolveSafeTarget_def startsWith_def isAbsolute_def)
  qed
  have b: "resolveSafeTarget cwd [] baseDir = Inr baseDir" if "resolve cwd [baseDir] = baseDir"
    using that same by (simp add: resolveSafeTarget_def relative_def startsWith_def isAbsolute_def)
  have c: "ScaffoldInputSchema ([], t) = None" by (simp add: ScaffoldInputSchema_def)
  from a b c show ?thesis by blast
qed

theorem empty_input_path_witness:
  "isAbsolute ''/tmp/X'' \<and> resolve ''/work'' [''/tmp/X''] = ''/tmp/X''
   \<and> resolveSafeTarget ''/work'' [] ''/tmp/X'' = Inr (resolve ''/work'' [''/tmp/X''])
   \<and> resolveSafeTarget ''/work'' [] ''/tmp/X'' = Inr ''/tmp/X''
   \<and> ScaffoldInputSchema ([], ''layered'') = None"
proof -
  have a: "isAbsolute ''/tmp/X''" by code_simp
  have b: "resolve ''/work'' [''/tmp/X''] = ''/tmp/X''" by code_simp
  from empty_input_path[of "''/tmp/X''" "''/work''" "''layered''"] a b show ?thesis by simp
qed

section \<open>A regular file where the parent directory should be\<close>

text \<open>
  Claim C6. \<open>ensureFile\<close> is to return \<open>False\<close> only when something already exists
  at the path, and to fail for every other cause. Its \<^verbatim>\<open>try\<close> block also covers the
  \<^verbatim>\<open>mkdir\<close> of the parent directory, which raises \<^verbatim>\<open>EEXIST\<close> when the parent
  path is a regular file: with \<^verbatim>\<open>/r/src\<close> a regular file,
  \<open>ensureFile\<close> of \<^verbatim>\<open>/r/src/app.ts\<close> returns \<open>False\<close> although nothing is at that
  path, and a scaffold of a pattern that declares the file without its directory
  succeeds and reports the file as skipped.
\<close>

theorem ensureFile_parent_is_file:
  "fst (ensureFile ''/work'' ''/r/src/app.ts'' ''export {}'' blocked_fs) = Inr False
   \<and> nodes blocked_fs (fs_key ''/work'' ''/r/src/app.ts'') = None
   \<and> nodes blocked_fs (fs_key ''/work'' (dirname ''/r/src/app.ts'')) = Some (File ''text'')
   \<and> fst (scaffoldProject ''/work'' flat_catalog ''.'' Layered ''/r'' blocked_fs)
       = Inr \<lparr>resolvedTarget = ''/r'', createdDirs = [], createdFiles = [],
              skippedFiles = [''src/app.ts''], result_label = ''Flat''\<rparr>
   \<and> nodes (snd (scaffoldProject ''/work'' flat_catalog ''.'' Layered ''/r'' blocked_fs))
        (fs_key ''/work'' ''/r/src/app.ts'') = None"
  by code_simp

section \<open>What a failure looks like to the caller\<close>

lemma resolveSafeTarget_error:
  "resolveSafeTarget cwd inputPath baseDir = Inl e
     \<Longrightarrow> code e = None \<and> startsWith (message e) ''Security violation: ''"
  unfolding resolveSafeTarget_def Let_def
  by (auto simp: startsWith_def split: if_splits)

lemma ensureDirectory_error:
  "ensureDirectory cwd p fs = (Inl e, fs')
     \<Longrightarrow> code e = None \<and> startsWith (message e) ''Failed to create directory ''"
  unfolding ensureDirectory_def
  by (auto simp: startsWith_def split: prod.splits sum.splits)

lemma ensureFile_error:
  "ensureFile cwd p c fs = (Inl e, fs')
     \<Longrightarrow> code e = None \<and> startsWith (message e) ''Failed to create file ''"
  unfolding ensureFile_def ensureFile_catch_def
  by (auto simp: startsWith_def split: prod.splits sum.splits if_splits)

lemma dirs_loop_error:
  "dirs_loop cwd target ds acc fs = (Inl e, fs')
     \<Longrightarrow> code e = None \<and> startsWith (message e) ''Failed to create directory ''"
proof (induction ds arbitrary: acc fs)
  case Nil
  then show ?case by simp
next
  case (Cons d ds)
  obtain x fsA where e: "ensureDirectory cwd (join [target, d]) fs = (x, fsA)"
    by (cases "ensureDirectory cwd (join [target, d]) fs")
  show ?case
  proof (cases x)
    case (Inl err)
    with e Cons.prems have "ensureDirectory cwd (join [target, d]) fs = (Inl e, fs')" by simp
    then show ?thesis by (rule ensureDirectory_error)
  next
    case (Inr u)
    with e Cons.prems have "dirs_loop cwd target ds (acc @ [d]) fsA = (Inl e, fs')" by simp
    then show ?thesis by (rule Cons.IH)
  qed
qed

lemma files_loop_error:
  "files_loop cwd target fl cr sk fs = (Inl e, fs')
     \<Longrightarrow> code e = None \<and> startsWith (message e) ''Failed to create file ''"
proof (induction fl arbitrary: cr sk fs)
  case Nil
  then show ?case by simp
next
  case (Cons f fl)
  obtain x fsA where e: "ensureFile cwd (join [target, path f]) (content f) fs = (x, fsA)"
    by (cases "ensureFile cwd (join [target, path f]) (content f) fs")
  show ?case
  proof (cases x)
    case (Inl err)
    with e Cons.prems have "ensureFile cwd (join [target, path f]) (content f) fs = (Inl e, fs')"
      by simp
    then show ?thesis by (rule ensureFile_error)
  next
    case (Inr b)
    with e Cons.prems have
      "files_loop cwd target fl (if b then cr @ [path f] else cr)
         (if b then sk else sk @ [path f]) fsA = (Inl e, fs')"
      by (simp split: if_splits)
    then show ?thesis by (rule Cons.IH)
  qed
qed

lemma escaping_run_fst:
  "fst escaping_run = Inl (Error None (''Security violation: Target path '' @ quoted ''..'' @
        '' must be within the current working directory.''))"
  by code_simp

lemma escaping_run_eq:
  "scaffoldProject ''/work'' example_catalog ''..'' Layered ''/r'' blocked_fs
     = (Inl (Error None (''Security violation: Target path '' @ quoted ''..'' @
        '' must be within the current working directory.'')), snd escaping_run)"
  using escaping_run_fst unfolding escaping_run_def by (simp add: prod_eq_iff)

text \<open>
  Claim C8 asks for typed failures. A path that leaves the base directory and a
  target that cannot be created both surface as an \<^verbatim>\<open>Error\<close> without a code: the
  two values differ in their message text only.
\<close>

theorem failures_carry_a_message_only:
  "fst escaping_run = Inl (Error None (''Security violation: Target path '' @ quoted ''..'' @
        '' must be within the current working directory.''))
   \<and> fst blocked_run = Inl (Error None (''Failed to create directory '' @ quoted ''/r/src'' @ '': '' @
        ''EEXIST: file already exists, mkdir '' @ quoted ''/r/src''))"
  using escaping_run_fst by (simp, code_simp)

lemma scaffold_failure_message:
  assumes "scaffoldProject cwd PATTERNS inputPath patternType baseDir fs = (Inl e, fs')"
  shows "code e = None
       \<and> (startsWith (message e) ''Security violation: ''
          \<or> startsWith (message e) ''Failed to create directory ''
          \<or> startsWith (message e) ''Failed to create file '')"
proof (cases "resolveSafeTarget cwd inputPath baseDir")
  case (Inl g)
  with assms have "g = e" unfolding scaffoldProject_def by simp
  with Inl resolveSafeTarget_error show ?thesis by blast
next
  case (Inr target)
  obtain x fsA where d: "ensureDirectory cwd target fs = (x, fsA)"
    by (cases "ensureDirectory cwd target fs")
  show ?thesis
  proof (cases x)
    case (Inl err)
    with Inr d assms have "ensureDirectory cwd target fs = (Inl e, fs')"
      unfolding scaffoldProject_def by simp
    from ensureDirectory_error[OF this] show ?thesis by blast
  next
    case u: (Inr u)
    obtain y fsB where l: "dirs_loop cwd target (directories (PATTERNS patternType)) [] fsA = (y, fsB)"
      by (cases "dirs_loop cwd target (directories (PATTERNS patternType)) [] fsA")
    show ?thesis
    proof (cases y)
      case (Inl err)
      with Inr d u l assms
      have "dirs_loop cwd target (directories (PATTERNS patternType)) [] fsA = (Inl e, fs')"
        unfolding scaffoldProject_def by simp
      from dirs_loop_error[OF this] show ?thesis by blast
    next
      case ds: (Inr ds)
      with Inr d u l assms
      have "files_loop cwd target (files (PATTERNS patternType)) [] [] fsB = (Inl e, fs')"
        unfolding scaffoldProject_def Let_def by (auto split: sum.splits prod.splits)
      from files_loop_error[OF this] show ?thesis by blast
    qed
  qed
qed

text \<open>
  A loop ends at the first entry whose materializer fails, with that error and in the
  state that failure left; the entries after it are not touched.
\<close>

lemma dirs_loop_abort:
  "dirs_loop cwd target dsa acc fs = (Inr acc', fsa)
     \<Longrightarrow> ensureDirectory cwd (join [target, d]) fsa = (Inl g, fsb)
     \<Longrightarrow> dirs_loop cwd target (dsa @ d # dsb) acc fs = (Inl g, fsb)"
proof (induction dsa arbitrary: acc fs)
  case Nil
  then show ?case by simp
next
  case (Cons x dsa)
  from Cons.prems(1) obtain u fsx where
    e: "ensureDirectory cwd (join [target, x]) fs = (Inr u, fsx)"
    and l: "dirs_loop cwd target dsa (acc @ [x]) fsx = (Inr acc', fsa)"
    by (auto split: sum.splits prod.splits)
  from Cons.IH[OF l Cons.prems(2)] e show ?case by simp
qed

lemma files_loop_abort:
  "files_loop cwd target fla cr sk fs = (Inr (cr', sk'), fsa)
     \<Longrightarrow> ensureFile cwd (join [target, path f]) (content f) fsa = (Inl g, fsb)
     \<Longrightarrow> files_loop cwd target (fla @ f # flb) cr sk fs = (Inl g, fsb)"
proof (induction fla arbitrary: cr sk fs)
  case Nil
  then show ?case by simp
next
  case (Cons x fla)
  from Cons.prems(1) obtain b fsx where
    e: "ensureFile cwd (join [target, path x]) (content x) fs = (Inr b, fsx)"
    and l: "files_loop cwd target fla (if b then cr @ [path x] else cr)
       (if b then sk else sk @ [path x]) fsx = (Inr (cr', sk'), fsa)"
    by (rule files_loop_step)
  from Cons.IH[OF l Cons.prems(2)] e show ?case by (cases b) simp_all
qed

lemma scaffold_abort_guard:
  "resolveSafeTarget cwd inputPath baseDir = Inl g
     \<Longrightarrow> scaffoldProject cwd PATTERNS inputPath patternType baseDir fs = (Inl g, fs)"
  by (simp add: scaffoldProject_def)

lemma scaffold_abort_target:
  "resolveSafeTarget cwd inputPath baseDir = Inr target
     \<Longrightarrow> ensureDirectory cwd target fs = (Inl g, fsa)
     \<Longrightarrow> scaffoldProject cwd PATTERNS inputPath patternType baseDir fs = (Inl g, fsa)"
  by (simp add: scaffoldProject_def)

lemma scaffold_abort_directory:
  assumes "resolveSafeTarget cwd inputPath baseDir = Inr target"
    and "ensureDirectory cwd target fs = (Inr u, fsa)"
    and "directories (PATTERNS patternType) = dsa @ d # dsb"
    and "dirs_loop cwd target dsa [] fsa = (Inr acc, fsb)"
    and "ensureDirectory cwd (join [target, d]) fsb = (Inl g, fsc)"
  shows "scaffoldProject cwd PATTERNS inputPath patternType baseDir fs = (Inl g, fsc)"
proof -
  from dirs_loop_abort[OF assms(4,5), of dsb] assms(3)
  have "dirs_loop cwd target (directories (PATTERNS patternType)) [] fsa = (Inl g, fsc)"
    by simp
  with assms(1,2) show ?thesis by (simp add: scaffoldProject_def)
qed

lemma scaffold_abort_file:
  assumes "resolveSafeTarget cwd inputPath baseDir = Inr target"
    and "ensureDirectory cwd target fs = (Inr u, fsa)"
    and "dirs_loop cwd target (directories (PATTERNS patternType)) [] fsa = (Inr ds, fsb)"
    and "files (PATTERNS patternType) = fla @ f # flb"
    and "files_loop cwd target fla [] [] fsb = (Inr (cr, sk), fsc)"
    and "ensureFile cwd (join [target, path f]) (content f) fsc = (Inl g, fsd)"
  shows "scaffoldProject cwd PATTERNS inputPath patternType baseDir fs = (Inl g, fsd)"
proof -
  from files_loop_abort[OF assms(5,6), of flb] assms(4)
  have "files_loop cwd target (files (PATTERNS patternType)) [] [] fsb = (Inl g, fsd)"
    by simp
  with assms(1,2,3) show ?thesis by (simp add: scaffoldProject_def)
qed

text \<open>
  Claim C8, as the code has it. A failure of the guard, of the target directory, of
  a directory entry or of a file entry ends \<open>scaffoldProject\<close> at once: the call
  returns that very error and the file system as the failing step left it, so nothing
  declared after the failing entry is made. Every error the call returns is an
  \<^verbatim>\<open>Error\<close> that carries no code, and whose message starts with
  \<^verbatim>\<open>Security violation: \<close>, \<^verbatim>\<open>Failed to create directory \<close> or
  \<^verbatim>\<open>Failed to create file \<close>.
\<close>

theorem scaffold_failure_shape:
  "(resolveSafeTarget cwd inputPath baseDir = Inl g
      \<longrightarrow> scaffoldProject cwd PATTERNS inputPath patternType baseDir fs = (Inl g, fs))
   \<and> (resolveSafeTarget cwd inputPath baseDir = Inr target
        \<and> ensureDirectory cwd target fs = (Inl g, fsa)
      \<longrightarrow> scaffoldProject cwd PATTERNS inputPath patternType baseDir fs = (Inl g, fsa))
   \<and> (resolveSafeTarget cwd inputPath baseDir = Inr target
        \<and> ensureDirectory cwd target fs = (Inr u, fsa)
        \<and> directories (PATTERNS patternType) = dsa @ d # dsb
        \<and> dirs_loop cwd target dsa [] fsa = (Inr acc, fsb)
        \<and> ensureDirectory cwd (join [target, d]) fsb = (Inl g, fsc)
      \<longrightarrow> scaffoldProject cwd PATTERNS inputPath patternType baseDir fs = (Inl g, fsc))
   \<and> (resolveSafeTarget cwd inputPath baseDir = Inr target
        \<and> ensureDirectory cwd target fs = (Inr u, fsa)
        \<and> dirs_loop cwd target (directories (PATTERNS patternType)) [] fsa = (Inr ds, fsb)
        \<and> files (PATTERNS patternType) = fla @ f # flb
        \<and> files_loop cwd target fla [] [] fsb = (Inr (cr, sk), fsc)
        \<and> ensureFile cwd (join [target, path f]) (content f) fsc = (Inl g, fsd)
      \<longrightarrow> scaffoldProject cwd PATTERNS inputPath patternType baseDir fs = (Inl g, fsd))
   \<and> (scaffoldProject cwd PATTERNS inputPath patternType baseDir fs = (Inl e, fs')
      \<longrightarrow> code e = None
          \<and> (startsWith (message e) ''Security violation: ''
             \<or> startsWith (message e) ''Failed to create directory ''
             \<or> startsWith (message e) ''Failed to create file ''))"
proof -
  have a: "resolveSafeTarget cwd inputPath baseDir = Inl g
      \<longrightarrow> scaffoldProject cwd PATTERNS inputPath patternType baseDir fs = (Inl g, fs)"
    using scaffold_abort_guard by blast
  have b: "resolveSafeTarget cwd inputPath baseDir = Inr target
        \<and> ensureDirectory cwd target fs = (Inl g, fsa)
      \<longrightarrow> scaffoldProject cwd PATTERNS inputPath patternType baseDir fs = (Inl g, fsa)"
    using scaffold_abort_target by blast
  have c: "resolveSafeTarget cwd inputPath baseDir = Inr target
        \<and> ensureDirectory cwd target fs = (Inr u, fsa)
        \<and> directories (PATTERNS patternType) = dsa @ d # dsb
        \<and> dirs_loop cwd target dsa [] fsa = (Inr acc, fsb)
        \<and> ensureDirectory cwd (join [target, d]) fsb = (Inl g, fsc)
      \<longrightarrow> scaffoldProject cwd PATTERNS inputPath patternType baseDir fs = (Inl g, fsc)"
    using scaffold_abort_directory by blast
  have d: "resolveSafeTarget cwd inputPath baseDir = Inr target
        \<and> ensureDirectory cwd target fs = (Inr u, fsa)
        \<and> dirs_loop cwd target (directories (PATTERNS patternType)) [] fsa = (Inr ds, fsb)
        \<and> files (PATTERNS patternType) = fla @ f # flb
        \<and> files_loop cwd target fla [] [] fsb = (Inr (cr, sk), fsc)
        \<and> ensureFile cwd (join [target, path f]) (content f) fsc = (Inl g, fsd)
      \<longrightarrow> scaffoldProject cwd PATTERNS inputPath patternType baseDir fs = (Inl g, fsd)"
    using scaffold_abort_file by blast
  have e: "scaffoldProject cwd PATTERNS inputPath patternType baseDir fs = (Inl e, fs')
      \<longrightarrow> code e = None
          \<and> (startsWith (message e) ''Security violation: ''
             \<or> startsWith (message e) ''Failed to create directory ''
             \<or> startsWith (message e) ''Failed to create file '')"
    using scaffold_failure_message by blast
  show ?thesis by (intro conjI a b c d e)
qed

lemma blocked_target: "resolveSafeTarget ''/work'' ''src'' ''/r'' = Inr ''/r/src''"
  by code_simp

lemma blocked_target_fails:
  "ensureDirectory ''/work'' ''/r/src'' blocked_fs
     = (Inl target_failure, snd (ensureDirectory ''/work'' ''/r/src'' blocked_fs))"
proof -
  have "fst (ensureDirectory ''/work'' ''/r/src'' blocked_fs) = Inl target_failure"
    by code_simp
  then show ?thesis by (simp add: prod_eq_iff)
qed

lemma app_target: "resolveSafeTarget ''/work'' ''app'' ''/r'' = Inr ''/r/app''"
  by code_simp

lemma dir_blocked_steps:
  "ensureDirectory ''/work'' ''/r/app'' dir_blocked_fs = (Inr (), dir_blocked_state_a)"
  "dirs_loop ''/work'' ''/r/app'' [''src/components''] [] dir_blocked_state_a
     = (Inr [''src/components''], dir_blocked_state_b)"
  "ensureDirectory ''/work'' (join [''/r/app'', ''public'']) dir_blocked_state_b
     = (Inl dir_failure, dir_blocked_state_c)"
proof -
  have "fst (dirs_loop ''/work'' ''/r/app'' [''src/components''] [] dir_blocked_state_a)
      = Inr [''src/components'']" by code_simp
  then show "dirs_loop ''/work'' ''/r/app'' [''src/components''] [] dir_blocked_state_a
     = (Inr [''src/components''], dir_blocked_state_b)"
    by (simp add: prod_eq_iff dir_blocked_state_b_def)
  have "fst (ensureDirectory ''/work'' (join [''/r/app'', ''public'']) dir_blocked_state_b)
      = Inl dir_failure" by code_simp
  then show "ensureDirectory ''/work'' (join [''/r/app'', ''public'']) dir_blocked_state_b
     = (Inl dir_failure, dir_blocked_state_c)"
    by (simp add: prod_eq_iff dir_blocked_state_c_def)
  have "fst (ensureDirectory ''/work'' ''/r/app'' dir_blocked_fs) = Inr ()" by code_simp
  then show "ensureDirectory ''/work'' ''/r/app'' dir_blocked_fs = (Inr (), dir_blocked_state_a)"
    by (simp add: prod_eq_iff dir_blocked_state_a_def)
qed

lemma src_locked_steps:
  "ensureDirectory ''/work'' ''/r/app'' src_locked_fs = (Inr (), src_locked_state_a)"
  "dirs_loop ''/work'' ''/r/app'' (directories (wide_catalog Feature)) [] src_locked_state_a
     = (Inr [''src/components'', ''public'', ''docs''], src_locked_state_b)"
  "files_loop ''/work'' ''/r/app'' [\<lparr>path = ''README.md'', content = ''# App''\<rparr>] [] []
      src_locked_state_b = (Inr ([''README.md''], []), src_locked_state_c)"
  "ensureFile ''/work'' (join [''/r/app'', ''src/main.ts'']) ''main();'' src_locked_state_c
     = (Inl file_failure, src_locked_state_d)"
proof -
  have "fst (ensureDirectory ''/work'' ''/r/app'' src_locked_fs) = Inr ()" by code_simp
  then show "ensureDirectory ''/work'' ''/r/app'' src_locked_fs = (Inr (), src_locked_state_a)"
    by (simp add: prod_eq_iff src_locked_state_a_def)
  have "fst (dirs_loop ''/work'' ''/r/app'' [''src/components'', ''public'', ''docs''] []
      src_locked_state_a) = Inr [''src/components'', ''public'', ''docs'']" by code_simp
  then show "dirs_loop ''/work'' ''/r/app'' (directories (wide_catalog Feature)) [] src_locked_state_a
     = (Inr [''src/components'', ''public'', ''docs''], src_locked_state_b)"
    by (simp add: prod_eq_iff src_locked_state_b_def wide_catalog_def)
  have "fst (files_loop ''/work'' ''/r/app'' [\<lparr>path = ''README.md'', content = ''# App''\<rparr>] [] []
      src_locked_state_b) = Inr ([''README.md''], [])" by code_simp
  then show "files_loop ''/work'' ''/r/app'' [\<lparr>path = ''README.md'', content = ''# App''\<rparr>] [] []
      src_locked_state_b = (Inr ([''README.md''], []), src_locked_state_c)"
    by (simp add: prod_eq_iff src_locked_state_c_def)
  have "fst (ensureFile ''/work'' (join [''/r/app'', ''src/main.ts'']) ''main();'' src_locked_state_c)
      = Inl file_failure" by code_simp
  then show "ensureFile ''/work'' (join [''/r/app'', ''src/main.ts'']) ''main();'' src_locked_state_c
     = (Inl file_failure, src_locked_state_d)"
    by (simp add: prod_eq_iff src_locked_state_d_def)
qed

lemma untouched_after_failure:
  "nodes dir_blocked_state_c [''r'', ''app'', ''docs''] = None"
  "nodes src_locked_state_d [''r'', ''app'', ''src'', ''app.ts''] = None"
  "nodes src_locked_state_d [''r'', ''app'', ''package.json''] = None"
  "nodes src_locked_state_d [''r'', ''app'', ''README.md''] = Some (File ''# App'')"
  by code_simp+

lemma guard_failure_here: "resolveSafeTarget ''/work'' ''..'' ''/r'' = Inl guard_failure"
  by code_simp

theorem scaffold_failure_shape_witness:
  "resolveSafeTarget ''/work'' ''..'' ''/r'' = Inl guard_failure
   \<and> scaffoldProject ''/work'' example_catalog ''..'' Layered ''/r'' blocked_fs
       = (Inl guard_failure, blocked_fs)
   \<and> code guard_failure = None
   \<and> startsWith (message guard_failure) ''Security violation: ''
   \<and> ensureDirectory ''/work'' ''/r/src'' blocked_fs
       = (Inl target_failure, snd (ensureDirectory ''/work'' ''/r/src'' blocked_fs))
   \<and> scaffoldProject ''/work'' example_catalog ''src'' Layered ''/r'' blocked_fs
       = (Inl target_failure, snd (ensureDirectory ''/work'' ''/r/src'' blocked_fs))
   \<and> code target_failure = None
   \<and> startsWith (message target_failure) ''Failed to create directory ''
   \<and> directories (wide_catalog Feature) = [''src/components''] @ ''public'' # [''docs'']
   \<and> ensureDirectory ''/work'' (join [''/r/app'', ''public'']) dir_blocked_state_b
       = (Inl dir_failure, dir_blocked_state_c)
   \<and> scaffoldProject ''/work'' wide_catalog ''app'' Feature ''/r'' dir_blocked_fs
       = (Inl dir_failure, dir_blocked_state_c)
   \<and> nodes dir_blocked_state_c [''r'', ''app'', ''docs''] = None
   \<and> code dir_failure = None
   \<and> startsWith (message dir_failure) ''Failed to create directory ''
   \<and> files (wide_catalog Feature)
       = [\<lparr>path = ''README.md'', content = ''# App''\<rparr>]
         @ \<lparr>path = ''src/main.ts'', content = ''main();''\<rparr>
         # [\<lparr>path = ''src/app.ts'', content = ''export {}''\<rparr>,
            \<lparr>path = ''package.json'', content = ''{}''\<rparr>]
   \<and> ensureFile ''/work'' (join [''/r/app'', ''src/main.ts'']) ''main();'' src_locked_state_c
       = (Inl file_failure, src_locked_state_d)
   \<and> scaffoldProject ''/work'' wide_catalog ''app'' Feature ''/r'' src_locked_fs
       = (Inl file_failure, src_locked_state_d)
   \<and> nodes src_locked_state_d [''r'', ''app'', ''README.md''] = Some (File ''# App'')
   \<and> nodes src_locked_state_d [''r'', ''app'', ''src'', ''app.ts''] = None
   \<and> nodes src_locked_state_d [''r'', ''app'', ''package.json''] = None
   \<and> code file_failure = None
   \<and> startsWith (message file_failure) ''Failed to create file ''"
proof -
  have dd: "directories (wide_catalog Feature) = [''src/components''] @ ''public'' # [''docs'']"
    by (simp add: wide_catalog_def)
  have ff: "files (wide_catalog Feature)
       = [\<lparr>path = ''README.md'', content = ''# App''\<rparr>]
         @ \<lparr>path = ''src/main.ts'', content = ''main();''\<rparr>
         # [\<lparr>path = ''src/app.ts'', content = ''export {}''\<rparr>,
            \<lparr>path = ''package.json'', content = ''{}''\<rparr>]"
    by (simp add: wide_catalog_def)
  have g: "scaffoldProject ''/work'' example_catalog ''..'' Layered ''/r'' blocked_fs
       = (Inl guard_failure, blocked_fs)"
    using scaffold_failure_shape[where cwd = "''/work''" and inputPath = "''..''"
        and baseDir = "''/r''" and g = guard_failure and PATTERNS = example_catalog
        and patternType = Layered and fs = blocked_fs]
      guard_failure_here by blast
  have gs: "code guard_failure = None \<and> startsWith (message guard_failure) ''Security violation: ''"
    by (simp add: guard_failure_def startsWith_def)
  have t: "scaffoldProject ''/work'' example_catalog ''src'' Layered ''/r'' blocked_fs
       = (Inl target_failure, snd (ensureDirectory ''/work'' ''/r/src'' blocked_fs))"
    using scaffold_failure_shape[where cwd = "''/work''" and inputPath = "''src''"
        and baseDir = "''/r''" and g = target_failure and PATTERNS = example_catalog
        and patternType = Layered and fs = blocked_fs and target = "''/r/src''"
        and fsa = "snd (ensureDirectory ''/work'' ''/r/src'' blocked_fs)"]
      blocked_target blocked_target_fails by blast
  have d: "scaffoldProject ''/work'' wide_catalog ''app'' Feature ''/r'' dir_blocked_fs
       = (Inl dir_failure, dir_blocked_state_c)"
    using scaffold_failure_shape[where cwd = "''/work''" and inputPath = "''app''"
        and baseDir = "''/r''" and g = dir_failure and PATTERNS = wide_catalog
        and patternType = Feature and fs = dir_blocked_fs and target = "''/r/app''"
        and u = "()" and fsa = dir_blocked_state_a and dsa = "[''src/components'']"
        and d = "''public''" and dsb = "[''docs'']" and acc = "[''src/components'']"
        and fsb = dir_blocked_state_b and fsc = dir_blocked_state_c]
      app_target dir_blocked_steps dd by blast
  have f: "scaffoldProject ''/work'' wide_catalog ''app'' Feature ''/r'' src_locked_fs
       = (Inl file_failure, src_locked_state_d)"
    using scaffold_failure_shape[where cwd = "''/work''" and inputPath = "''app''"
        and baseDir = "''/r''" and g = file_failure and PATTERNS = wide_catalog
        and patternType = Feature and fs = src_locked_fs and target = "''/r/app''"
        and u = "()" and fsa = src_locked_state_a
        and ds = "[''src/components'', ''public'', ''docs'']"
        and fsb = src_locked_state_b
        and fla = "[\<lparr>path = ''README.md'', content = ''# App''\<rparr>]"
        and f = "\<lparr>path = ''src/main.ts'', content = ''main();''\<rparr>"
        and flb = "[\<lparr>path = ''src/app.ts'', content = ''export {}''\<rparr>,
            \<lparr>path = ''package.json'', content = ''{}''\<rparr>]"
        and cr = "[''README.md'']" and sk = "[]"
        and fsc = src_locked_state_c and fsd = src_locked_state_d]
      app_target src_locked_steps ff by simp
  have s: "code target_failure = None" "startsWith (message target_failure) ''Failed to create directory ''"
    "code dir_failure = None" "startsWith (message dir_failure) ''Failed to create directory ''"
    "code file_failure = None" "startsWith (message file_failure) ''Failed to create file ''"
    by (simp_all add: target_failure_def dir_failure_def file_failure_def startsWith_def)
  from guard_failure_here g gs blocked_target_fails t dd dir_blocked_steps(3) d
    untouched_after_failure ff src_locked_steps(4) f s
  show ?thesis by blast
qed

end
